theory Spec2Isabelle
  imports Complex_Main
begin

section \<open>The endurance test controller of \<^verbatim>\<open>endurance_test.py\<close>\<close>

text \<open>
  The development embeds the class \<^verbatim>\<open>EnduranceTestController\<close>: the instrument
  channel (\<^verbatim>\<open>safe_write\<close>, \<^verbatim>\<open>safe_query\<close>, \<^verbatim>\<open>safe_measure\<close>,
  \<^verbatim>\<open>safe_set_current\<close>), the interpolation of a window of telemetry samples
  (\<^verbatim>\<open>interpolate_current_window\<close>), the voltage cutoff check and the loop
  \<^verbatim>\<open>test_loop\<close> that sequences them.

  Conventions of the embedding.
  \<^item> The numbers of the program are IEEE-754 doubles; \<open>float64 x\<close> is the double
    nearest to the real number \<open>x\<close>. The tolerance test of \<^verbatim>\<open>safe_set_current\<close> is
    computed as the program computes it, every operation rounded. The interpolation of a
    window is embedded twice: \<open>interpolate_current_window_f64\<close> rounds every operation of
    Python and numpy, and \<open>interpolate_current_window\<close> computes the same formulas in
    exact arithmetic. The loop works with the latter, and with exact sums and differences
    of times. Timestamps (\<^verbatim>\<open>time.time()\<close>, \<^verbatim>\<open>datetime.now()\<close>) are seconds on one
    clock.
  \<^item> The attributes of the object are the fields of the record \<open>controller\<close>. The
    fields \<open>console\<close> and \<open>csv_log\<close> hold what is printed and what is written to the
    CSV log. The last five fields are not attributes: they hold the environment the methods
    act on (the clock, the behaviour of the instrument link, the number of calls made to
    it, the commands issued so far with their times, and the moment at which the operator
    presses Stop, if ever).
  \<^item> Time passes only in \<^verbatim>\<open>time.sleep\<close> and inside a call to the instrument; the
    \<open>k\<close>-th call to the instrument takes the time and has the outcome given by
    \<open>link k\<close>.
  \<^item> An exception is a value: \<open>Raises\<close> for a call to the instrument, \<open>None\<close> for a
    numpy routine.
  \<^item> Log lines keep their fixed text; the formatted numbers and the time prefix are
    left out.
\<close>

subsection \<open>Data\<close>

text \<open>
  A command is either a fixed text or the formatted setpoint command
  \<^verbatim>\<open>f":SOUR:CURR:LEV {current_value:.3f}"\<close>, kept with its value.
\<close>

datatype command = Cmd string | SetLevel real

text \<open>
  The outcome of one call \<^verbatim>\<open>instrument.write\<close> or \<^verbatim>\<open>instrument.query\<close>:
  the call raises, or it returns; for a query the reply carries its text and what
  \<^verbatim>\<open>float\<close> makes of that text (\<open>None\<close> when \<^verbatim>\<open>float\<close> raises ValueError).
\<close>

datatype reply = Raises | Reply string "real option"

record controller =
  instrument :: bool
  last_measurement_time :: real
  measurement_interval :: real
  last_command_time :: real
  command_interval :: real
  max_retries :: nat
  last_valid_voltage :: real
  last_valid_current :: real
  last_measurement_success_time :: "real option"
  measurement_timeout_threshold :: real
  test_data :: "real list"
  test_running :: bool
  current_row :: nat
  interpolation_method :: string
  voltage_cutoff :: real
  max_current :: real
  min_current :: real
  target_current :: real
  voltage_below_cutoff_time :: "real option"
  voltage_cutoff_buffer :: real
  stop_event :: bool
  console :: "string list"
  csv_log :: "(nat \<times> real \<times> real \<times> real) list"
  clock :: real
  link :: "nat \<Rightarrow> real \<times> reply"
  calls :: nat
  sent :: "(real \<times> command) list"
  stop_pressed :: "real option"

text \<open>
  \<^verbatim>\<open>__init__\<close>: the attribute values of a new controller, in an environment given by
  the behaviour of the link and the moment of the stop request. \<^verbatim>\<open>test_data\<close> is the
  column C of the loaded CSV file.
\<close>

definition init :: "(nat \<Rightarrow> real \<times> reply) \<Rightarrow> real option \<Rightarrow> controller" where
  "init lnk stp =
     \<lparr> instrument = False,
       last_measurement_time = 0,
       measurement_interval = 2,
       last_command_time = 0,
       command_interval = 3 / 10,
       max_retries = 3,
       last_valid_voltage = 37 / 10,
       last_valid_current = 0,
       last_measurement_success_time = None,
       measurement_timeout_threshold = 10,
       test_data = [],
       test_running = False,
       current_row = 0,
       interpolation_method = ''rms'',
       voltage_cutoff = 275 / 100,
       max_current = 40,
       min_current = 0,
       target_current = 0,
       voltage_below_cutoff_time = None,
       voltage_cutoff_buffer = 1,
       stop_event = False,
       console = [],
       csv_log = [],
       clock = 0,
       link = lnk,
       calls = 0,
       sent = [],
       stop_pressed = stp \<rparr>"

subsection \<open>Double-precision arithmetic\<close>

text \<open>
  Rounding to the nearest integer, a tie going to the even one; and the double nearest to a
  real number, a tie going to the even significand. The significand of a double has 53
  bits: between \<open>2 ^ e\<close> and \<open>2 ^ (e + 1)\<close> the doubles are the multiples of
  \<open>2 ^ (e - 52)\<close>. The range of the exponent is not limited here: a magnitude above
  \<open>2 ^ 1024\<close>, which overflows to infinity, or below \<open>2 ^ -1022\<close>, among the
  subnormal numbers, is rounded like the others, and NaN and the infinities are not
  values.
\<close>

definition round_half_even :: "real \<Rightarrow> int" where
  "round_half_even y =
     (let f = \<lfloor>y\<rfloor>
      in if y - of_int f < 1 / 2 then f
         else if 1 / 2 < y - of_int f then f + 1
         else if even f then f else f + 1)"

definition float64 :: "real \<Rightarrow> real" where
  "float64 x =
     (if x = 0 then 0
      else let ulp = 2 powi (\<lfloor>log 2 \<bar>x\<bar>\<rfloor> - 52)
           in of_int (round_half_even (x / ulp)) * ulp)"

subsection \<open>Interpolation of a window\<close>

text \<open>
  The numpy reductions used by \<^verbatim>\<open>interpolate_current_window\<close>, in exact
  arithmetic.
\<close>

definition np_sum :: "real list \<Rightarrow> real" where
  "np_sum a = sum_list a"

definition np_mean :: "real list \<Rightarrow> real" where
  "np_mean a = sum_list a / real (length a)"

definition squares :: "real list \<Rightarrow> real list" where
  "squares a = map (\<lambda>x. x ^ 2) a"

text \<open>\<^verbatim>\<open>np.max\<close> raises ValueError on an empty array.\<close>

fun np_max :: "real list \<Rightarrow> real option" where
  "np_max [] = None"
| "np_max (x # xs) = Some (fold max xs x)"

text \<open>\<^verbatim>\<open>np.average(a, weights=w)\<close> raises ZeroDivisionError when the weights sum to zero.\<close>

definition np_average :: "real list \<Rightarrow> real list \<Rightarrow> real option" where
  "np_average a w =
     (if sum_list w = 0 then None
      else Some (sum_list (map2 (*) a w) / sum_list w))"

text \<open>The body of the \<^verbatim>\<open>for raw_current in current_slice\<close> loop.\<close>

definition process_current :: "controller \<Rightarrow> real \<Rightarrow> real" where
  "process_current c raw_current =
     (let processed_current = (if raw_current < 0 then \<bar>raw_current\<bar> / 3 else 0)
      in max (min_current c) (min (max_current c) processed_current))"

definition processed_currents :: "controller \<Rightarrow> real list \<Rightarrow> real list" where
  "processed_currents c current_slice = map (process_current c) current_slice"

text \<open>
  \<^verbatim>\<open>interpolate_current_window\<close> in exact arithmetic; the result is \<open>None\<close> when a
  numpy routine raises.
\<close>

definition interpolate_current_window :: "controller \<Rightarrow> real list \<Rightarrow> real option" where
  "interpolate_current_window c current_slice =
     (if length current_slice = 0 then Some 0
      else
        let currents = processed_currents c current_slice in
        if currents = [] then Some 0
        else if interpolation_method c = ''average'' then Some (np_mean currents)
        else if interpolation_method c = ''rms'' then Some (sqrt (np_mean (squares currents)))
        else if interpolation_method c = ''weighted_avg'' then
          (let weights = (if np_sum currents > 0 then map (\<lambda>x. x / np_sum currents) currents
                          else map (\<lambda>x. 1) currents)
           in np_average currents weights)
        else if interpolation_method c = ''peak_aware'' then
          (let avg_current = np_mean currents in
           case np_max currents of
             None \<Rightarrow> None
           | Some max_c \<Rightarrow> Some (7 / 10 * avg_current + 3 / 10 * max_c))
        else if interpolation_method c = ''energy_equiv'' then
          (if length currents > 0 then
             (let energy_sum = np_sum (squares currents)
              in Some (sqrt (energy_sum / real (length currents))))
           else Some 0)
        else Some (sqrt (np_mean (squares currents))))"

text \<open>
  The same method in the arithmetic of the program. Every operation of Python and of numpy
  on doubles returns the double nearest to the exact result; a literal such as \<^verbatim>\<open>0.7\<close>
  is the double nearest to it; \<^verbatim>\<open>max\<close>, \<^verbatim>\<open>min\<close>, \<^verbatim>\<open>abs\<close> and the comparisons are exact.

  \<^verbatim>\<open>np.sum\<close>, and the sums inside \<^verbatim>\<open>np.mean\<close> and \<^verbatim>\<open>np.average\<close>, add the elements of
  an array of doubles in the order of numpy's routine \<^verbatim>\<open>pairwise_sum\<close>: fewer than 8
  elements one after the other, starting from zero; up to 128 elements with eight running
  sums, the \<open>j\<close>-th of them over the elements at the positions \<open>j\<close>, \<open>j + 8\<close>,
  \<open>j + 16\<close> and so on, which are then added two by two, followed by the elements that
  are left when the length is not a multiple of 8; a longer array in two parts, the first
  of them a multiple of 8 long, which are summed apart and then added.
\<close>

function pairwise_sum :: "real list \<Rightarrow> real" where
  "pairwise_sum a =
     (if length a < 8 then foldl (\<lambda>res x. float64 (res + x)) 0 a
      else if length a \<le> 128 then
        (let r = foldl (\<lambda>r i. map2 (\<lambda>x y. float64 (x + y)) r (take 8 (drop (8 * i) a)))
                   (take 8 a) [1..<length a div 8];
             res = float64 (float64 (float64 (r ! 0 + r ! 1) + float64 (r ! 2 + r ! 3))
                            + float64 (float64 (r ! 4 + r ! 5) + float64 (r ! 6 + r ! 7)))
         in foldl (\<lambda>res x. float64 (res + x)) res (drop (8 * (length a div 8)) a))
      else
        (let n2 = length a div 2 - length a div 2 mod 8
         in float64 (pairwise_sum (take n2 a) + pairwise_sum (drop n2 a))))"
  by pat_completeness auto

termination
  by (relation "measure length") auto

declare pairwise_sum.simps [simp del]

definition np_sum_f64 :: "real list \<Rightarrow> real" where
  "np_sum_f64 a = pairwise_sum a"

text \<open>\<^verbatim>\<open>np.mean\<close>: the sum, divided by the number of elements.\<close>

definition np_mean_f64 :: "real list \<Rightarrow> real" where
  "np_mean_f64 a = float64 (np_sum_f64 a / real (length a))"

text \<open>\<^verbatim>\<open>currents**2\<close>: every element multiplied by itself.\<close>

definition squares_f64 :: "real list \<Rightarrow> real list" where
  "squares_f64 a = map (\<lambda>x. float64 (x * x)) a"

text \<open>
  \<^verbatim>\<open>np.average(a, weights=w)\<close>: the sum of the products divided by the sum of the
  weights; ZeroDivisionError when the weights sum to zero.
\<close>

definition np_average_f64 :: "real list \<Rightarrow> real list \<Rightarrow> real option" where
  "np_average_f64 a w =
     (let scl = np_sum_f64 w
      in if scl = 0 then None
         else Some (float64 (np_sum_f64 (map2 (\<lambda>x y. float64 (x * y)) a w) / scl)))"

definition process_current_f64 :: "controller \<Rightarrow> real \<Rightarrow> real" where
  "process_current_f64 c raw_current =
     (let processed_current = (if raw_current < 0 then float64 (\<bar>raw_current\<bar> / 3) else 0)
      in max (min_current c) (min (max_current c) processed_current))"

definition processed_currents_f64 :: "controller \<Rightarrow> real list \<Rightarrow> real list" where
  "processed_currents_f64 c current_slice = map (process_current_f64 c) current_slice"

definition interpolate_current_window_f64 :: "controller \<Rightarrow> real list \<Rightarrow> real option" where
  "interpolate_current_window_f64 c current_slice =
     (if length current_slice = 0 then Some 0
      else
        let currents = processed_currents_f64 c current_slice in
        if currents = [] then Some 0
        else if interpolation_method c = ''average'' then Some (np_mean_f64 currents)
        else if interpolation_method c = ''rms'' then
          Some (float64 (sqrt (np_mean_f64 (squares_f64 currents))))
        else if interpolation_method c = ''weighted_avg'' then
          (let weights = (if np_sum_f64 currents > 0
                          then map (\<lambda>x. float64 (x / np_sum_f64 currents)) currents
                          else map (\<lambda>x. 1) currents)
           in np_average_f64 currents weights)
        else if interpolation_method c = ''peak_aware'' then
          (let avg_current = np_mean_f64 currents in
           case np_max currents of
             None \<Rightarrow> None
           | Some max_c \<Rightarrow>
               Some (float64 (float64 (float64 (7 / 10) * avg_current)
                              + float64 (float64 (3 / 10) * max_c))))
        else if interpolation_method c = ''energy_equiv'' then
          (if length currents > 0 then
             (let energy_sum = np_sum_f64 (squares_f64 currents)
              in Some (float64 (sqrt (float64 (energy_sum / real (length currents))))))
           else Some 0)
        else Some (float64 (sqrt (np_mean_f64 (squares_f64 currents)))))"

subsection \<open>Primitives of the environment\<close>

text \<open>\<^verbatim>\<open>log_message\<close>: the line printed to the console.\<close>

definition log_message :: "string \<Rightarrow> controller \<Rightarrow> controller" where
  "log_message message s = s\<lparr>console := console s @ [message]\<rparr>"

text \<open>\<^verbatim>\<open>time.sleep\<close>.\<close>

definition sleep :: "real \<Rightarrow> controller \<Rightarrow> controller" where
  "sleep d s = s\<lparr>clock := clock s + d\<rparr>"

text \<open>
  One call \<^verbatim>\<open>self.instrument.write(cmd)\<close> or \<^verbatim>\<open>self.instrument.query(cmd)\<close>: the
  command is recorded with the time at which it is issued, and the call takes the time
  and has the outcome the link gives to it.
\<close>

definition instrument_call :: "command \<Rightarrow> controller \<Rightarrow> reply \<times> controller" where
  "instrument_call cmd s =
     (let (took, r) = link s (calls s)
      in (r, s\<lparr>sent := sent s @ [(clock s, cmd)],
                calls := calls s + 1,
                clock := clock s + took\<rparr>))"

subsection \<open>The instrument channel\<close>

text \<open>
  The wait that opens every attempt of \<^verbatim>\<open>safe_write\<close> and \<^verbatim>\<open>safe_query\<close>: until
  \<^verbatim>\<open>command_interval\<close> has passed since \<^verbatim>\<open>last_command_time\<close>.
\<close>

definition wait_command_interval :: "controller \<Rightarrow> controller" where
  "wait_command_interval s =
     (let current_time = clock s
      in if current_time - last_command_time s < command_interval s
         then sleep (command_interval s - (current_time - last_command_time s)) s
         else s)"

text \<open>
  \<^verbatim>\<open>safe_write\<close>. The first argument of \<open>write_attempts\<close> counts the iterations
  that \<^verbatim>\<open>for attempt in range(self.max_retries)\<close> has left.
\<close>

fun write_attempts :: "nat \<Rightarrow> nat \<Rightarrow> command \<Rightarrow> controller \<Rightarrow> bool \<times> controller" where
  "write_attempts 0 attempt command s = (False, s)"
| "write_attempts (Suc n) attempt command s =
     (let s1 = wait_command_interval s;
          (r, s2) = instrument_call command s1
      in case r of
           Reply txt val \<Rightarrow> (True, s2\<lparr>last_command_time := clock s2\<rparr>)
         | Raises \<Rightarrow>
             if attempt < max_retries s - 1
             then write_attempts n (attempt + 1) command
                    (sleep (5 / 10 * real (attempt + 1)) (log_message ''Write retry'' s2))
             else (False, log_message ''Write failed'' s2))"

definition safe_write :: "command \<Rightarrow> controller \<Rightarrow> bool \<times> controller" where
  "safe_write command s =
     (if \<not> instrument s then (False, s)
      else write_attempts (max_retries s) 0 command s)"

text \<open>\<^verbatim>\<open>safe_query\<close>: the stripped reply, or \<open>None\<close>.\<close>

fun query_attempts :: "nat \<Rightarrow> nat \<Rightarrow> command \<Rightarrow> controller \<Rightarrow> string option \<times> controller" where
  "query_attempts 0 attempt command s = (None, s)"
| "query_attempts (Suc n) attempt command s =
     (let s1 = wait_command_interval s;
          (r, s2) = instrument_call command s1
      in case r of
           Reply txt val \<Rightarrow> (Some txt, s2\<lparr>last_command_time := clock s2\<rparr>)
         | Raises \<Rightarrow>
             if attempt < max_retries s - 1
             then query_attempts n (attempt + 1) command
                    (sleep (5 / 10 * real (attempt + 1)) (log_message ''Query retry'' s2))
             else (None, log_message ''Query failed'' s2))"

definition safe_query :: "command \<Rightarrow> controller \<Rightarrow> string option \<times> controller" where
  "safe_query command s =
     (if \<not> instrument s then (None, s)
      else query_attempts (max_retries s) 0 command s)"

text \<open>
  The two attempts \<^verbatim>\<open>for attempt in range(2)\<close> of \<^verbatim>\<open>safe_measure\<close>, for the voltage
  and for the current: the query and \<^verbatim>\<open>float\<close> are under one \<^verbatim>\<open>try\<close>.
\<close>

definition measure_attempts :: "command \<Rightarrow> string \<Rightarrow> controller \<Rightarrow> real option \<times> controller" where
  "measure_attempts cmd what s =
     (let (r0, s0) = instrument_call cmd s
      in case r0 of
           Reply txt0 (Some v0) \<Rightarrow> (Some v0, s0)
         | _ \<Rightarrow>
             (let s1 = sleep (5 / 10) (log_message (what @ '' measurement retry'') s0);
                  (r1, s2) = instrument_call cmd s1
              in case r1 of
                   Reply txt1 (Some v1) \<Rightarrow> (Some v1, s2)
                 | _ \<Rightarrow> (None, log_message (what @ '' measurement failed'') s2)))"

definition cached :: "controller \<Rightarrow> real \<times> real" where
  "cached s = (last_valid_voltage s, last_valid_current s)"

definition safe_measure :: "controller \<Rightarrow> (real \<times> real) \<times> controller" where
  "safe_measure s =
     (if \<not> instrument s then (cached s, s)
      else
        let current_time = clock s in
        if current_time - last_measurement_time s < measurement_interval s then (cached s, s)
        else
          let start_time = clock s;
              (voltage, s1) = measure_attempts (Cmd '':MEAS:VOLT?'') ''Voltage'' s
          in if clock s1 - start_time > 5
             then (cached s1, log_message ''Measurement taking too long, using cached values'' s1)
             else
               let (current, s2) = measure_attempts (Cmd '':MEAS:CURR?'') ''Current'' s1
               in case (voltage, current) of
                    (Some v, Some i) \<Rightarrow>
                      if 0 \<le> v \<and> v \<le> 50 \<and> 0 \<le> i \<and> i \<le> 50
                      then ((v, i), s2\<lparr>last_valid_voltage := v,
                                         last_valid_current := i,
                                         last_measurement_success_time := Some (clock s2),
                                         last_measurement_time := clock s2\<rparr>)
                      else (cached s2, log_message ''Invalid readings - using cached values'' s2)
                  | _ \<Rightarrow> (cached s2, s2))"

text \<open>
  \<^verbatim>\<open>safe_set_current\<close>. Inside one attempt: the \<^verbatim>\<open>*CLS\<close> that precedes every
  attempt but the first (its failure is passed over), and the verification under the
  inner \<^verbatim>\<open>try\<close>, whose first component tells whether the method returns \<^verbatim>\<open>True\<close>
  from there.
\<close>

definition clear_pending_errors :: "nat \<Rightarrow> controller \<Rightarrow> controller" where
  "clear_pending_errors attempt s =
     (if attempt > 0
      then (let (rc, sc) = instrument_call (Cmd ''*CLS'') s
            in case rc of Reply txt val \<Rightarrow> sleep (1 / 10) sc | Raises \<Rightarrow> sc)
      else s)"

text \<open>
  \<^verbatim>\<open>tolerance = max(0.01, abs(current_value * 0.01))\<close>: the literal is the double
  nearest to 0.01 and the product is rounded. In the test that follows the difference is
  rounded too.
\<close>

definition tolerance :: "real \<Rightarrow> real" where
  "tolerance current_value =
     max (float64 (1 / 100)) \<bar>float64 (current_value * float64 (1 / 100))\<bar>"

definition verify_setting :: "real \<Rightarrow> controller \<Rightarrow> bool \<times> controller" where
  "verify_setting current_value s =
     (let s5 = sleep (1 / 10) s;
          (rq, s6) = instrument_call (Cmd '':SOUR:CURR:LEV?'') s5
      in case rq of
           Reply rtxt (Some set_current) \<Rightarrow>
             if \<bar>float64 (set_current - current_value)\<bar> \<le> tolerance current_value
             then (True, log_message ''Current set successfully'' s6)
             else (False, log_message ''Current verification failed'' s6)
         | _ \<Rightarrow> (True, log_message ''Current verification error'' s6))"

text \<open>
  The first argument of \<open>set_current_attempts\<close> counts the iterations that
  \<^verbatim>\<open>for attempt in range(5)\<close> has left.
\<close>

fun set_current_attempts :: "nat \<Rightarrow> nat \<Rightarrow> real \<Rightarrow> controller \<Rightarrow> bool \<times> controller" where
  "set_current_attempts 0 attempt current_value s = (False, s)"
| "set_current_attempts (Suc n) attempt current_value s =
     (let s1 = sleep (3 / 10) s;
          s2 = clear_pending_errors attempt s1;
          (rw, s3) = instrument_call (SetLevel current_value) s2
      in case rw of
           Raises \<Rightarrow>
             if attempt < 4
             then set_current_attempts n (attempt + 1) current_value
                    (sleep (1 * real (attempt + 1)) (log_message ''Current setting retry'' s3))
             else (False, log_message ''Current setting failed after 5 attempts'' s3)
         | Reply txt val \<Rightarrow>
             (let s4 = sleep (2 / 10) s3;
                  (verified, s6) = verify_setting current_value s4
              in if verified then (True, s6)
                 else set_current_attempts n (attempt + 1) current_value s6))"

definition safe_set_current :: "real \<Rightarrow> controller \<Rightarrow> bool \<times> controller" where
  "safe_set_current current_value s =
     (if \<not> instrument s then (False, s)
      else set_current_attempts 5 0 current_value s)"

subsection \<open>The voltage cutoff check\<close>

text \<open>
  The block of \<^verbatim>\<open>test_loop\<close> that follows the measurement: it works on
  \<^verbatim>\<open>voltage_below_cutoff_time\<close> and leaves the loop by \<^verbatim>\<open>break\<close> when the cutoff
  triggers; the first component of the result tells whether it did.
\<close>

definition measurement_age :: "controller \<Rightarrow> real option" where
  "measurement_age s =
     (case last_measurement_success_time s of
        None \<Rightarrow> None
      | Some t \<Rightarrow> Some (clock s - t))"

definition check_voltage_cutoff :: "real \<Rightarrow> controller \<Rightarrow> bool \<times> controller" where
  "check_voltage_cutoff voltage s =
     (case measurement_age s of
        None \<Rightarrow> (False, s)
      | Some age \<Rightarrow>
          if age \<le> measurement_timeout_threshold s then
            (let current_time = clock s in
             if voltage \<le> voltage_cutoff s then
               (case voltage_below_cutoff_time s of
                  None \<Rightarrow>
                    (False, log_message ''Warning: Voltage below cutoff - Starting 1s buffer''
                              (s\<lparr>voltage_below_cutoff_time := Some current_time\<rparr>))
                | Some since \<Rightarrow>
                    (let time_below = current_time - since
                     in if time_below \<ge> voltage_cutoff_buffer s
                        then (True, log_message ''Voltage cutoff triggered'' s)
                        else (False, s)))
             else
               (False, (if voltage_below_cutoff_time s \<noteq> None
                        then log_message ''Voltage recovered'' s else s)
                         \<lparr>voltage_below_cutoff_time := None\<rparr>))
          else if age > measurement_timeout_threshold s then
            (if voltage_below_cutoff_time s \<noteq> None
             then (False, (log_message ''Ignoring voltage cutoff - measurements too old'' s)
                            \<lparr>voltage_below_cutoff_time := None\<rparr>)
             else (False, s))
          else (False, s))"

subsection \<open>The test loop\<close>

text \<open>How the \<^verbatim>\<open>while\<close> loop of \<^verbatim>\<open>test_loop\<close> is left.\<close>

datatype loop_exit =
    While_false
  | Break_stop_event
  | Break_load_on
  | Break_cutoff
  | Raised

text \<open>
  The block under \<^verbatim>\<open># Update DC load with resilient current setting\<close>; the first
  component tells whether the \<^verbatim>\<open>break\<close> after a failed \<^verbatim>\<open>:SOUR:INP ON\<close> is taken.
\<close>

definition update_load :: "real \<Rightarrow> controller \<Rightarrow> bool \<times> controller" where
  "update_load avg_current s =
     (if avg_current > 1 / 1000 then
        (let (success, s1) = safe_set_current avg_current s;
             s2 = (if \<not> success
                   then log_message ''Failed to set current level - continuing test'' s1
                   else s1)
         in if current_row s2 = 0 \<and> success then
              (let s3 = sleep (2 / 10) s2;
                   (load_success, s4) = safe_write (Cmd '':SOUR:INP ON'') s3
               in if \<not> load_success
                  then (True, log_message ''Failed to turn on load'' s4)
                  else (False, s4))
            else (False, s2))
      else
        (let (success, s1) = safe_set_current 0 s
         in (False, if \<not> success
                    then log_message ''Failed to set zero current - continuing test'' s1
                    else s1)))"

text \<open>
  The body of \<^verbatim>\<open>if self.current_row % 200 == 0\<close>. A row of the CSV log is kept as
  (row, target current, measured voltage, measured current).
\<close>

definition batch :: "controller \<Rightarrow> loop_exit option \<times> controller" where
  "batch s =
     (let total_rows = length (test_data s);
          end_row = min (current_row s + 200) total_rows;
          current_slice = drop (current_row s) (take end_row (test_data s))
      in case interpolate_current_window s current_slice of
           None \<Rightarrow> (Some Raised, s)
         | Some avg_current \<Rightarrow>
             (let s1 = s\<lparr>target_current := avg_current\<rparr>;
                  s2 = (if current_row s1 mod 2000 = 0 then log_message ''Window'' s1 else s1);
                  (brk, s3) = update_load avg_current s2
              in if brk then (Some Break_load_on, s3)
                 else
                   (let (vi, s4) = safe_measure s3;
                        s5 = s4\<lparr>csv_log := csv_log s4 @ [(current_row s4, avg_current, fst vi, snd vi)]\<rparr>;
                        (tripped, s6) = check_voltage_cutoff (fst vi) s5
                    in if tripped then (Some Break_cutoff, s6) else (None, s6))))"

text \<open>\<^verbatim>\<open>stop_test\<close>, without its updates of the GUI.\<close>

definition stop_test :: "controller \<Rightarrow> controller" where
  "stop_test s =
     (if \<not> test_running s then s
      else
        (let s1 = (log_message ''Stopping test...'' s)\<lparr>test_running := False, stop_event := True\<rparr>
         in if instrument s1
            then sleep (2 / 10) (snd (safe_write (Cmd '':SOUR:INP OFF'') s1))
            else s1))"

text \<open>
  The operator: once the moment of the stop request has come, \<^verbatim>\<open>stop_test\<close> runs. The
  loop observes it where it tests its condition.
\<close>

definition operator :: "controller \<Rightarrow> controller" where
  "operator s =
     (case stop_pressed s of
        None \<Rightarrow> s
      | Some t \<Rightarrow> if t \<le> clock s then stop_test s else s)"

text \<open>The end of one iteration: from \<^verbatim>\<open># Update progress\<close> to the pacing sleep.\<close>

definition advance :: "controller \<Rightarrow> controller" where
  "advance s =
     (let s1 = s\<lparr>current_row := current_row s + 1\<rparr>;
          s2 = (if current_row s1 mod 2000 = 0 then log_message ''Progress'' s1 else s1)
      in if current_row s2 mod 200 = 0 then sleep 2 s2 else s2)"

subsection \<open>What the channel leaves alone\<close>

text \<open>
  The configuration, the row cursor, the profile and the environment's behaviour are not
  touched by the channel, the cutoff check or a batch; this is what makes the loop
  terminate.
\<close>

definition frame :: "controller \<Rightarrow> controller \<Rightarrow> bool" where
  "frame s s' \<longleftrightarrow>
     instrument s' = instrument s \<and> measurement_interval s' = measurement_interval s \<and>
     command_interval s' = command_interval s \<and> max_retries s' = max_retries s \<and>
     measurement_timeout_threshold s' = measurement_timeout_threshold s \<and>
     test_data s' = test_data s \<and> test_running s' = test_running s \<and>
     current_row s' = current_row s \<and> interpolation_method s' = interpolation_method s \<and>
     voltage_cutoff s' = voltage_cutoff s \<and> max_current s' = max_current s \<and>
     min_current s' = min_current s \<and>
     voltage_cutoff_buffer s' = voltage_cutoff_buffer s \<and> stop_event s' = stop_event s \<and>
     link s' = link s \<and> stop_pressed s' = stop_pressed s"

lemma frame_refl [simp]: "frame s s"
  by (simp add: frame_def)

lemma frame_trans: "frame s s' \<Longrightarrow> frame s' s'' \<Longrightarrow> frame s s''"
  by (simp add: frame_def)

lemma instrument_call_eq:
  "instrument_call cmd s =
     (snd (link s (calls s)),
      s\<lparr>sent := sent s @ [(clock s, cmd)], calls := calls s + 1,
        clock := clock s + fst (link s (calls s))\<rparr>)"
  by (simp add: instrument_call_def split: prod.splits)

lemma frame_log_message [simp]: "frame s (log_message m s)"
  by (simp add: frame_def log_message_def)

lemma frame_sleep [simp]: "frame s (sleep d s)"
  by (simp add: frame_def sleep_def)

lemma frame_instrument_call [simp]: "frame s (snd (instrument_call cmd s))"
  by (simp add: frame_def instrument_call_eq)

lemma frame_log_message' [simp]: "frame s s' \<Longrightarrow> frame s (log_message m s')"
  by (simp add: frame_def log_message_def)

lemma frame_sleep' [simp]: "frame s s' \<Longrightarrow> frame s (sleep d s')"
  by (simp add: frame_def sleep_def)

lemma frame_instrument_call' [simp]: "frame s s' \<Longrightarrow> frame s (snd (instrument_call cmd s'))"
  by (simp add: frame_def instrument_call_eq)

lemma frame_last_command_time [simp]:
  "frame s (s'\<lparr>last_command_time := x\<rparr>) = frame s s'"
  by (simp add: frame_def)

lemma frame_wait [simp]: "frame s s' \<Longrightarrow> frame s (wait_command_interval s')"
  by (simp add: wait_command_interval_def Let_def)

lemma frame_write_attempts: "frame s s' \<Longrightarrow> frame s (snd (write_attempts n a c s'))"
proof (induction n arbitrary: a s')
  case 0
  then show ?case by simp
next
  case (Suc n)
  show ?case using Suc.prems
    by (auto simp add: Let_def case_prod_beta intro!: Suc.IH split: reply.splits)
qed


lemma frame_query_attempts: "frame s s' \<Longrightarrow> frame s (snd (query_attempts n a c s'))"
proof (induction n arbitrary: a s')
  case 0
  then show ?case by simp
next
  case (Suc n)
  show ?case using Suc.prems
    by (auto simp add: Let_def case_prod_beta intro!: Suc.IH split: reply.splits)
qed

lemma frame_safe_write [simp]: "frame s s' \<Longrightarrow> frame s (snd (safe_write c s'))"
  by (simp add: safe_write_def frame_write_attempts)

lemma frame_safe_query [simp]: "frame s s' \<Longrightarrow> frame s (snd (safe_query c s'))"
  by (simp add: safe_query_def frame_query_attempts)

lemma frame_measure_attempts [simp]:
  "frame s s' \<Longrightarrow> frame s (snd (measure_attempts c w s'))"
  by (simp add: measure_attempts_def Let_def case_prod_beta split: reply.splits option.splits)

lemma frame_cache [simp]:
  "frame s (s'\<lparr>last_valid_voltage := v, last_valid_current := i,
               last_measurement_success_time := t, last_measurement_time := u\<rparr>) = frame s s'"
  by (simp add: frame_def)

lemma frame_safe_measure [simp]: "frame s s' \<Longrightarrow> frame s (snd (safe_measure s'))"
  by (simp add: safe_measure_def Let_def case_prod_beta split: option.splits)




lemma frame_clear [simp]: "frame s s' \<Longrightarrow> frame s (clear_pending_errors a s')"
  by (simp add: clear_pending_errors_def split: prod.splits reply.splits)
     (metis frame_instrument_call' frame_sleep' snd_conv)

lemma frame_verify [simp]: "frame s s' \<Longrightarrow> frame s (snd (verify_setting v s'))"
  by (simp add: verify_setting_def Let_def case_prod_beta split: reply.splits option.splits)

lemma frame_set_current_attempts:
  "frame s s' \<Longrightarrow> frame s (snd (set_current_attempts n a v s'))"
proof (induction n arbitrary: a s')
  case 0
  then show ?case by simp
next
  case (Suc n)
  show ?case using Suc.prems
    by (auto simp add: Let_def case_prod_beta intro!: Suc.IH split: reply.splits)
qed

lemma frame_safe_set_current [simp]: "frame s s' \<Longrightarrow> frame s (snd (safe_set_current v s'))"
  by (simp add: safe_set_current_def frame_set_current_attempts)

lemma frame_below [simp]:
  "frame s (s'\<lparr>voltage_below_cutoff_time := x\<rparr>) = frame s s'"
  by (simp add: frame_def)

lemma frame_check_voltage_cutoff [simp]:
  "frame s s' \<Longrightarrow> frame s (snd (check_voltage_cutoff v s'))"
  by (simp add: check_voltage_cutoff_def Let_def split: option.splits)

lemma frame_update_load [simp]: "frame s s' \<Longrightarrow> frame s (snd (update_load v s'))"
  by (simp add: update_load_def Let_def case_prod_beta)

lemma frame_target [simp]:
  "frame s (s'\<lparr>target_current := x\<rparr>) = frame s s'"
  "frame s (s'\<lparr>csv_log := y\<rparr>) = frame s s'"
  by (simp_all add: frame_def)

lemma frame_batch [simp]: "frame s s' \<Longrightarrow> frame s (snd (batch s'))"
  by (simp add: batch_def Let_def case_prod_beta split: option.splits)

lemma stop_test_rows:
  "current_row (stop_test s) = current_row s \<and> test_data (stop_test s) = test_data s"
proof -
  have f: "frame (s1::controller) (snd (safe_write c s1))" for c s1 by simp
  show ?thesis
    using f[of "(log_message ''Stopping test...'' s)\<lparr>test_running := False, stop_event := True\<rparr>"]
    by (simp add: stop_test_def Let_def frame_def sleep_def log_message_def)
qed

lemma operator_rows:
  "current_row (operator s) = current_row s \<and> test_data (operator s) = test_data s"
  by (simp add: operator_def stop_test_rows split: option.splits)

lemma advance_rows:
  "current_row (advance s) = current_row s + 1 \<and> test_data (advance s) = test_data s"
  by (simp add: advance_def Let_def sleep_def log_message_def)

lemma batch_rows:
  "current_row (snd (batch s)) = current_row s \<and> test_data (snd (batch s)) = test_data s"
  using frame_batch[of s s] by (simp add: frame_def)


text \<open>
  The \<^verbatim>\<open>while\<close> loop of \<^verbatim>\<open>test_loop\<close>, with the way it is left. The statements of
  \<^verbatim>\<open>test_loop\<close> after the loop (switching the load off) are not part of it.
\<close>

function test_loop :: "controller \<Rightarrow> loop_exit \<times> controller" where
  "test_loop s0 =
     (let s = operator s0
      in if \<not> (test_running s \<and> current_row s < length (test_data s)) then (While_false, s)
         else if stop_event s then (Break_stop_event, s)
         else
           (let (ex, s1) = (if current_row s mod 200 = 0 then batch s else (None, s))
            in case ex of
                 Some e \<Rightarrow> (e, s1)
               | None \<Rightarrow> test_loop (advance s1)))"
  by pat_completeness auto
termination
proof (relation "measure (\<lambda>s. length (test_data s) - current_row s)")
  show "wf (measure (\<lambda>s. length (test_data s) - current_row s))" by simp
next
  fix s0 s x ex s1
  assume "s = operator s0"
    and "\<not> \<not> (test_running s \<and> current_row s < length (test_data s))"
    and "x = (if current_row s mod 200 = 0 then batch s else (None, s))"
    and "(ex, s1) = x"
  then have "current_row s1 = current_row s0 \<and> test_data s1 = test_data s0 \<and>
      current_row s0 < length (test_data s0)"
    using batch_rows[of s] operator_rows[of s0] by (auto split: if_splits simp: prod_eq_iff)
  then show "(advance s1, s0) \<in> measure (\<lambda>s. length (test_data s) - current_row s)"
    using advance_rows[of s1] by (auto intro: diff_less_mono2)
qed

declare test_loop.simps [simp del]

subsection \<open>Notions used in the statements\<close>

text \<open>The cache of \<^verbatim>\<open>safe_measure\<close> and its success timestamp are the same in two states.\<close>

definition same_cache :: "controller \<Rightarrow> controller \<Rightarrow> bool" where
  "same_cache s s' \<longleftrightarrow>
     last_valid_voltage s' = last_valid_voltage s \<and>
     last_valid_current s' = last_valid_current s \<and>
     last_measurement_success_time s' = last_measurement_success_time s"

text \<open>
  The two polls of \<^verbatim>\<open>safe_measure\<close>, its rate limit, and the value that \<^verbatim>\<open>float\<close>
  reads in a reply.
\<close>

definition voltage_poll :: "controller \<Rightarrow> real option \<times> controller" where
  "voltage_poll s = measure_attempts (Cmd '':MEAS:VOLT?'') ''Voltage'' s"

definition current_poll :: "controller \<Rightarrow> real option \<times> controller" where
  "current_poll s = measure_attempts (Cmd '':MEAS:CURR?'') ''Current'' (snd (voltage_poll s))"

definition rate_limited :: "controller \<Rightarrow> bool" where
  "rate_limited s \<longleftrightarrow> clock s - last_measurement_time s < measurement_interval s"

definition parsed :: "reply \<Rightarrow> real option" where
  "parsed r = (case r of Reply txt (Some v) \<Rightarrow> Some v | _ \<Rightarrow> None)"

text \<open>As long as no read has succeeded, the cache holds the values of \<^verbatim>\<open>__init__\<close>.\<close>

definition cache_inv :: "controller \<Rightarrow> bool" where
  "cache_inv s \<longleftrightarrow>
     (last_measurement_success_time s = None \<longrightarrow> cached s = (37 / 10, 0))"

text \<open>Two behaviours of the link: it answers 3.5 and then 1.0; it raises at every call.\<close>

definition ok_link :: "nat \<Rightarrow> real \<times> reply" where
  "ok_link k = (if k = 0 then (1 / 10, Reply ''3.5'' (Some (35 / 10)))
                else (1 / 10, Reply ''1.0'' (Some 1)))"

definition dead_link :: "nat \<Rightarrow> real \<times> reply" where
  "dead_link k = (0, Raises)"

text \<open>
  What the link makes of the attempts of \<^verbatim>\<open>safe_set_current\<close>, read off the replies alone.
  An attempt other than the first spends one call on \<^verbatim>\<open>*CLS\<close>. Then the setpoint write
  raises (\<open>Write_failed\<close>), or it returns and the readback query follows: it raises or
  its reply does not parse (\<open>Verify_error\<close>), or the value read passes the test of
  the code against the tolerance (\<open>Verified\<close>), or it does not (\<open>Mismatch\<close>). The list ends with the first attempt that
  is \<open>Verified\<close> or \<open>Verify_error\<close>, or when the attempts are used up. The arguments
  are the link, the requested value, the number of the attempt, the number of the next
  call to the instrument, and the number of attempts left.
\<close>

datatype attempt_outcome = Write_failed | Verified | Verify_error | Mismatch

fun outcomes :: "(nat \<Rightarrow> real \<times> reply) \<Rightarrow> real \<Rightarrow> nat \<Rightarrow> nat \<Rightarrow> nat \<Rightarrow> attempt_outcome list" where
  "outcomes lnk v attempt k 0 = []"
| "outcomes lnk v attempt k (Suc n) =
     (let k' = (if attempt > 0 then k + 1 else k)
      in case snd (lnk k') of
           Raises \<Rightarrow> Write_failed # outcomes lnk v (attempt + 1) (k' + 1) n
         | Reply txt val \<Rightarrow>
             (case parsed (snd (lnk (k' + 1))) of
                None \<Rightarrow> [Verify_error]
              | Some r \<Rightarrow>
                  if \<bar>float64 (r - v)\<bar> \<le> tolerance v then [Verified]
                  else Mismatch # outcomes lnk v (attempt + 1) (k' + 2) n))"

text \<open>The number of setpoint writes for a value among the commands issued.\<close>

definition setpoint_writes :: "real \<Rightarrow> controller \<Rightarrow> nat" where
  "setpoint_writes v s = length (filter (\<lambda>c. c = SetLevel v) (map snd (sent s)))"

text \<open>
  A link on which the first two setpoint writes raise and everything else is answered
  with 1.000.
\<close>

definition flaky_link :: "nat \<Rightarrow> real \<times> reply" where
  "flaky_link k = (if k = 0 \<or> k = 2 then (0, Raises) else (0, Reply ''1.000'' (Some 1)))"

text \<open>
  A link on which every call returns the text 0.51, which \<^verbatim>\<open>float\<close> reads as the double
  nearest to 0.51.
\<close>

definition edge_link :: "nat \<Rightarrow> real \<times> reply" where
  "edge_link k = (0, Reply ''0.51'' (Some (float64 (51 / 100))))"

text \<open>
  Every command of a list was issued for \<open>cmd\<close>, and not before \<^verbatim>\<open>command_interval\<close> had
  passed since the \<^verbatim>\<open>last_command_time\<close> of the state \<open>s\<close>.
\<close>

definition gated :: "controller \<Rightarrow> command \<Rightarrow> (real \<times> command) list \<Rightarrow> bool" where
  "gated s cmd xs \<longleftrightarrow>
     list_all (\<lambda>(t, c). c = cmd \<and> last_command_time s + command_interval s \<le> t) xs"

text \<open>
  The safety monitor as the specification names its states. In the code the state is
  \<^verbatim>\<open>voltage_below_cutoff_time\<close> together with whether the cutoff has triggered, which
  is the \<^verbatim>\<open>break\<close> of the cutoff check: \<open>OK\<close> when no time is set, \<open>BELOW_PENDING\<close>
  from the time that is set, \<open>TRIPPED\<close> once the check has triggered.
\<close>

datatype monitor_state = OK | BELOW_PENDING real | TRIPPED

definition monitor_state :: "bool \<times> controller \<Rightarrow> monitor_state" where
  "monitor_state r =
     (if fst r then TRIPPED
      else case voltage_below_cutoff_time (snd r) of
             None \<Rightarrow> OK
           | Some since \<Rightarrow> BELOW_PENDING since)"

text \<open>
  What one evaluation of the cutoff check sees: the time of the evaluation, the time of the
  last successful measurement (if any), and the voltage that \<^verbatim>\<open>safe_measure\<close> returned.
  \<open>evaluate\<close> runs the check of the code in a state that shows these; \<open>evaluate_all\<close>
  runs it on a sequence of readings and stops where the loop breaks.
\<close>

datatype reading = Reading (moment: real) (success: "real option") (volts: real)

definition evaluate :: "controller \<Rightarrow> reading \<Rightarrow> bool \<times> controller" where
  "evaluate s r =
     check_voltage_cutoff (volts r)
       (s\<lparr>clock := moment r, last_measurement_success_time := success r\<rparr>)"

fun evaluate_all :: "controller \<Rightarrow> reading list \<Rightarrow> bool \<times> controller" where
  "evaluate_all s [] = (False, s)"
| "evaluate_all s (r # rs) =
     (case evaluate s r of
        (True, s') \<Rightarrow> (True, s')
      | (False, s') \<Rightarrow> evaluate_all s' rs)"

text \<open>
  A reading is fresh when a successful measurement exists and is not older than
  \<^verbatim>\<open>measurement_timeout_threshold\<close>; it is below when its voltage is at most
  \<^verbatim>\<open>voltage_cutoff\<close>.
\<close>

definition fresh :: "controller \<Rightarrow> reading \<Rightarrow> bool" where
  "fresh s r \<longleftrightarrow>
     (case success r of
        None \<Rightarrow> False
      | Some t \<Rightarrow> moment r - t \<le> measurement_timeout_threshold s)"

definition below :: "controller \<Rightarrow> reading \<Rightarrow> bool" where
  "below s r \<longleftrightarrow> volts r \<le> voltage_cutoff s"

text \<open>Two states have the same cutoff, buffer and staleness threshold.\<close>

definition same_limits :: "controller \<Rightarrow> controller \<Rightarrow> bool" where
  "same_limits s s' \<longleftrightarrow>
     measurement_timeout_threshold s' = measurement_timeout_threshold s \<and>
     voltage_cutoff s' = voltage_cutoff s \<and>
     voltage_cutoff_buffer s' = voltage_cutoff_buffer s"

definition fresh_below :: "controller \<Rightarrow> reading \<Rightarrow> bool" where
  "fresh_below s r \<longleftrightarrow> fresh s r \<and> below s r"

text \<open>
  \<open>streak_reaches c since rs\<close>: the readings \<open>rs\<close> start with a run of fresh readings
  below the cutoff, one of which comes at least the buffer after \<open>since\<close>.
  \<open>has_streak c rs\<close>: somewhere in \<open>rs\<close> a fresh reading below the cutoff is followed
  by such a run, counted from its own time. \<open>streak_at c rs i j\<close> says the same with
  positions: the readings from \<open>i\<close> to \<open>j\<close> are all fresh and below the cutoff, and the
  one at \<open>j\<close> comes at least the buffer after the one at \<open>i\<close>.
\<close>

fun streak_reaches :: "controller \<Rightarrow> real \<Rightarrow> reading list \<Rightarrow> bool" where
  "streak_reaches c since [] = False"
| "streak_reaches c since (r # rs) =
     (fresh_below c r \<and> (voltage_cutoff_buffer c \<le> moment r - since \<or> streak_reaches c since rs))"

fun has_streak :: "controller \<Rightarrow> reading list \<Rightarrow> bool" where
  "has_streak c [] = False"
| "has_streak c (r # rs) =
     ((fresh_below c r \<and> streak_reaches c (moment r) rs) \<or> has_streak c rs)"

text \<open>
  Once a reading shows a successful measurement, every later one does: the code assigns
  \<^verbatim>\<open>last_measurement_success_time\<close> a time only, never \<^verbatim>\<open>None\<close> again. Recursively
  (\<open>timestamps_stay\<close>) and with positions (\<open>timestamps_kept\<close>).
\<close>

fun timestamps_stay :: "reading list \<Rightarrow> bool" where
  "timestamps_stay [] = True"
| "timestamps_stay (r # rs) =
     ((success r \<noteq> None \<longrightarrow> list_all (\<lambda>x. success x \<noteq> None) rs) \<and> timestamps_stay rs)"

definition streak_at :: "controller \<Rightarrow> reading list \<Rightarrow> nat \<Rightarrow> nat \<Rightarrow> bool" where
  "streak_at c rs i j \<longleftrightarrow>
     i < j \<and> j < length rs \<and> (\<forall>k. i \<le> k \<and> k \<le> j \<longrightarrow> fresh_below c (rs ! k))
     \<and> voltage_cutoff_buffer c \<le> moment (rs ! j) - moment (rs ! i)"

definition timestamps_kept :: "reading list \<Rightarrow> bool" where
  "timestamps_kept rs \<longleftrightarrow>
     (\<forall>i j. i < j \<and> j < length rs \<and> success (rs ! i) \<noteq> None \<longrightarrow> success (rs ! j) \<noteq> None)"

text \<open>\<^verbatim>\<open>voltage_below_cutoff_time\<close> is the same in two states.\<close>

definition same_pending :: "controller \<Rightarrow> controller \<Rightarrow> bool" where
  "same_pending s s' \<longleftrightarrow> voltage_below_cutoff_time s' = voltage_below_cutoff_time s"

text \<open>
  A countdown is pending only when a successful measurement exists; and the state's own
  measurement is stale: none exists, or it is older than the threshold.
\<close>

definition pending_inv :: "controller \<Rightarrow> bool" where
  "pending_inv s \<longleftrightarrow>
     (voltage_below_cutoff_time s \<noteq> None \<longrightarrow> last_measurement_success_time s \<noteq> None)"

definition stale_now :: "controller \<Rightarrow> bool" where
  "stale_now s \<longleftrightarrow>
     (case measurement_age s of
        None \<Rightarrow> True
      | Some age \<Rightarrow> age > measurement_timeout_threshold s)"

text \<open>
  A falling voltage read at 0, 0.3, 0.9 and 1.4 s from measurements made at these times;
  and read 11 s after the measurements were made.
\<close>

definition falling :: "reading list" where
  "falling = [Reading 0 (Some 0) (28 / 10), Reading (3 / 10) (Some (3 / 10)) (27 / 10),
              Reading (9 / 10) (Some (9 / 10)) (26 / 10), Reading (14 / 10) (Some (14 / 10)) (24 / 10)]"

definition falling_stale :: "reading list" where
  "falling_stale = [Reading 11 (Some 0) (28 / 10), Reading (113 / 10) (Some (3 / 10)) (27 / 10),
              Reading (116 / 10) (Some (6 / 10)) (26 / 10), Reading (119 / 10) (Some (9 / 10)) (24 / 10)]"

text \<open>
  A link that answers the first setpoint write and its readback with 10.000 and raises at
  every later call; and a controller in a running test on a profile of one row, \<open>-30\<close>,
  with the Average method.
\<close>

definition refusing_link :: "nat \<Rightarrow> real \<times> reply" where
  "refusing_link k = (if k < 2 then (0, Reply ''10.000'' (Some 10)) else (0, Raises))"

definition one_row :: "(nat \<Rightarrow> real \<times> reply) \<Rightarrow> controller" where
  "one_row lnk = (init lnk None)\<lparr>instrument := True, test_running := True, test_data := [- 30],
                    interpolation_method := ''average'', clock := 100\<rparr>"

text \<open>
  What the final state shows for each way of leaving the loop: the condition of the
  \<^verbatim>\<open>while\<close> is false; the stop event is set; the enabling of the load failed in the first
  batch and was logged; the cutoff triggered on a measurement that is not stale, at least
  the buffer after the countdown began. No final state justifies an exception.
\<close>

definition exit_justified :: "loop_exit \<Rightarrow> controller \<Rightarrow> bool" where
  "exit_justified ex s =
     (case ex of
        While_false \<Rightarrow> \<not> test_running s \<or> length (test_data s) \<le> current_row s
      | Break_stop_event \<Rightarrow> stop_event s
      | Break_load_on \<Rightarrow> current_row s = 0 \<and> last (console s) = ''Failed to turn on load''
      | Break_cutoff \<Rightarrow>
          last (console s) = ''Voltage cutoff triggered'' \<and> \<not> stale_now s
          \<and> (case voltage_below_cutoff_time s of
                None \<Rightarrow> False
              | Some since \<Rightarrow> voltage_cutoff_buffer s \<le> clock s - since)
      | Raised \<Rightarrow> False)"

text \<open>
  A link that answers every command: the readback of the first setpoint is 0, that of the
  second is 10, every measurement is 3.5. And a running test on a profile of 201 rows, 200
  samples 0 followed by \<open>-30\<close>, with the Average method.
\<close>

definition late_link :: "nat \<Rightarrow> real \<times> reply" where
  "late_link k = (0, Reply ''reply'' (Some (if k = 1 then 0 else if k = 5 then 10 else 35 / 10)))"

definition late_start :: controller where
  "late_start = (init late_link None)\<lparr>instrument := True, test_running := True,
                    test_data := replicate 200 0 @ [- 30],
                    interpolation_method := ''average'', clock := 100\<rparr>"

section \<open>Double-precision arithmetic\<close>

lemma float64_zero [simp]: "float64 0 = 0"
  by (simp add: float64_def)

lemma powr_two_int: "(2::real) powr real_of_int k = 2 powi k"
  by (rule powr_real_of_int') simp_all

lemma floor_log2_eq:
  fixes x :: real
  assumes "2 powi k \<le> x" "x < 2 powi (k + 1)"
  shows "\<lfloor>log 2 x\<rfloor> = k"
proof -
  have "(0::real) < 2 powi k" by simp
  then have pos: "0 < x" using assms(1) by linarith
  have "2 powr (real_of_int k) \<le> x" "x < 2 powr (real_of_int (k + 1))"
    using assms unfolding powr_two_int by blast+
  then show ?thesis
    using pos floor_log_eq_powr_iff[of x 2 k] by simp
qed

lemma float64_scaled:
  fixes x :: real and n :: nat
  assumes "2 ^ 52 \<le> \<bar>x\<bar> * 2 ^ n" "\<bar>x\<bar> * 2 ^ n < 2 ^ 53"
  shows "float64 x = of_int (round_half_even (x * 2 ^ n)) / 2 ^ n"
proof -
  have nz: "x \<noteq> 0" using assms(1) by auto
  have p0: "(2::real) powi (52 - int n) = 2 ^ 52 / 2 ^ n"
    by (simp add: power_int_diff)
  have p1: "(2::real) powi (52 - int n + 1) = 2 ^ 53 / 2 ^ n"
    by (simp add: power_int_diff power_int_add)
  have "2 powi (52 - int n) \<le> \<bar>x\<bar>" "\<bar>x\<bar> < 2 powi (52 - int n + 1)"
    using assms unfolding p0 p1 by (simp_all add: field_simps)
  then have "\<lfloor>log 2 \<bar>x\<bar>\<rfloor> = 52 - int n" by (rule floor_log2_eq)
  moreover have "(2::real) powi (52 - int n - 52) = 1 / 2 ^ n"
    by (simp add: power_int_minus field_simps)
  ultimately show ?thesis using nz by (simp add: float64_def Let_def)
qed

lemma round_half_even_cases:
  "round_half_even y = \<lfloor>y\<rfloor> \<and> y - of_int \<lfloor>y\<rfloor> \<le> 1 / 2
   \<or> round_half_even y = \<lfloor>y\<rfloor> + 1 \<and> 1 / 2 \<le> y - of_int \<lfloor>y\<rfloor>"
  by (simp add: round_half_even_def Let_def)

lemma round_half_even_of_int [simp]: "round_half_even (of_int m) = m"
  by (simp add: round_half_even_def)

lemma round_half_even_error: "\<bar>of_int (round_half_even y) - y\<bar> \<le> 1 / 2"
  using round_half_even_cases[of y] by linarith

lemma round_half_even_mono:
  assumes "x \<le> y"
  shows "round_half_even x \<le> round_half_even y"
proof (cases "\<lfloor>x\<rfloor> = \<lfloor>y\<rfloor>")
  case True
  then show ?thesis using assms
    by (auto simp add: round_half_even_def Let_def)
next
  case False
  then have "\<lfloor>x\<rfloor> < \<lfloor>y\<rfloor>" using assms floor_mono[of x y] by linarith
  moreover have "round_half_even x \<le> \<lfloor>x\<rfloor> + 1" using round_half_even_cases[of x] by linarith
  moreover have "\<lfloor>y\<rfloor> \<le> round_half_even y" using round_half_even_cases[of y] by linarith
  ultimately show ?thesis by linarith
qed

lemma round_half_even_minus: "round_half_even (- y) = - round_half_even y"
proof (cases "y = of_int \<lfloor>y\<rfloor>")
  case True
  then obtain m where "y = of_int m" ..
  then show ?thesis by (simp flip: of_int_minus)
next
  case False
  then have f: "\<lfloor>- y\<rfloor> = - \<lfloor>y\<rfloor> - 1"
    by (metis ceiling_altdef ceiling_def add_diff_cancel_right' minus_diff_eq minus_minus uminus_add_conv_diff)
  have e: "even (- \<lfloor>y\<rfloor> - 1) \<longleftrightarrow> \<not> even \<lfloor>y\<rfloor>" by simp
  show ?thesis
    unfolding round_half_even_def Let_def f e
    by (auto simp add: algebra_simps)
qed

lemma float64_minus: "float64 (- x) = - float64 x"
  by (simp add: float64_def Let_def round_half_even_minus)

lemma scale_into_binade:
  fixes a :: nat
  assumes "0 < a" "a < 2 ^ 53"
  shows "\<exists>j. 2 ^ 52 \<le> a * 2 ^ j \<and> a * 2 ^ j < 2 ^ 53"
proof -
  define j where "j = (LEAST j. 2 ^ 52 \<le> a * 2 ^ j)"
  have ex: "2 ^ 52 \<le> a * 2 ^ 52" using assms(1) by simp
  then have le: "2 ^ 52 \<le> a * 2 ^ j" unfolding j_def by (rule LeastI)
  have "a * 2 ^ j < 2 ^ 53"
  proof (cases j)
    case 0
    then show ?thesis using assms(2) by simp
  next
    case (Suc i)
    then have "i < j" by simp
    then have "\<not> 2 ^ 52 \<le> a * 2 ^ i" unfolding j_def by (rule not_less_Least)
    then show ?thesis using Suc by simp
  qed
  with le show ?thesis by blast
qed

lemma float64_exact:
  assumes "\<bar>m\<bar> < 2 ^ 53"
  shows "float64 (of_int m / 2 ^ n) = of_int m / 2 ^ n"
proof (cases "m = 0")
  case True
  then show ?thesis by simp
next
  case False
  define a where "a = nat \<bar>m\<bar>"
  have a: "0 < a" "a < 2 ^ 53" "int a = \<bar>m\<bar>"
    using False assms by (simp_all add: a_def nat_less_iff)
  from scale_into_binade[OF a(1,2)] obtain j
    where j: "2 ^ 52 \<le> a * 2 ^ j" "a * 2 ^ j < 2 ^ 53" by blast
  have abs: "\<bar>of_int m / 2 ^ n :: real\<bar> * 2 ^ (n + j) = real (a * 2 ^ j)"
    using a(3) by (simp add: power_add abs_mult flip: of_int_abs)
  have "(2::real) ^ 52 \<le> real (a * 2 ^ j)" "real (a * 2 ^ j) < 2 ^ 53"
    using j by (metis of_nat_le_iff of_nat_numeral of_nat_power, metis of_nat_less_iff of_nat_numeral of_nat_power)
  then have "float64 (of_int m / 2 ^ n)
               = of_int (round_half_even (of_int m / 2 ^ n * 2 ^ (n + j))) / 2 ^ (n + j)"
    unfolding abs[symmetric] by (rule float64_scaled)
  also have "of_int m / 2 ^ n * 2 ^ (n + j) = (of_int (m * 2 ^ j) :: real)"
    by (simp add: power_add)
  also have "of_int (round_half_even (of_int (m * 2 ^ j))) / 2 ^ (n + j) = (of_int m / 2 ^ n :: real)"
    unfolding round_half_even_of_int by (simp add: power_add)
  finally show ?thesis .
qed

lemma float64_of_int: "\<bar>m\<bar> < 2 ^ 53 \<Longrightarrow> float64 (of_int m) = of_int m"
  using float64_exact[of m 0] by simp

lemma binade_bounds:
  fixes x :: real
  assumes "x \<noteq> 0"
  shows "2 powi \<lfloor>log 2 \<bar>x\<bar>\<rfloor> \<le> \<bar>x\<bar>" "\<bar>x\<bar> < 2 powi (\<lfloor>log 2 \<bar>x\<bar>\<rfloor> + 1)"
proof -
  have "0 < \<bar>x\<bar>" using assms by simp
  then have "2 powr real_of_int \<lfloor>log 2 \<bar>x\<bar>\<rfloor> \<le> \<bar>x\<bar>
             \<and> \<bar>x\<bar> < 2 powr (real_of_int \<lfloor>log 2 \<bar>x\<bar>\<rfloor> + 1)"
    using floor_log_eq_powr_iff[of "\<bar>x\<bar>" 2 "\<lfloor>log 2 \<bar>x\<bar>\<rfloor>"] by simp
  then have "2 powr real_of_int \<lfloor>log 2 \<bar>x\<bar>\<rfloor> \<le> \<bar>x\<bar>"
            "\<bar>x\<bar> < 2 powr real_of_int (\<lfloor>log 2 \<bar>x\<bar>\<rfloor> + 1)"
    by simp_all
  then show "2 powi \<lfloor>log 2 \<bar>x\<bar>\<rfloor> \<le> \<bar>x\<bar>" "\<bar>x\<bar> < 2 powi (\<lfloor>log 2 \<bar>x\<bar>\<rfloor> + 1)"
    unfolding powr_two_int by blast+
qed

lemma ulp_scaled:
  fixes x :: real
  assumes "x \<noteq> 0"
  defines "u \<equiv> 2 powi (\<lfloor>log 2 \<bar>x\<bar>\<rfloor> - 52)"
  shows "0 < u" "2 ^ 52 \<le> \<bar>x\<bar> / u" "\<bar>x\<bar> / u < 2 ^ 53"
        "2 ^ 52 * u = 2 powi \<lfloor>log 2 \<bar>x\<bar>\<rfloor>" "2 ^ 53 * u = 2 powi (\<lfloor>log 2 \<bar>x\<bar>\<rfloor> + 1)"
proof -
  show u: "0 < u" by (simp add: u_def)
  show a: "2 ^ 52 * u = 2 powi \<lfloor>log 2 \<bar>x\<bar>\<rfloor>"
    by (simp add: u_def power_int_diff)
  show b: "2 ^ 53 * u = 2 powi (\<lfloor>log 2 \<bar>x\<bar>\<rfloor> + 1)"
    by (simp add: u_def power_int_diff power_int_add)
  show "2 ^ 52 \<le> \<bar>x\<bar> / u" using binade_bounds(1)[OF assms(1)] u a
    by (simp add: pos_le_divide_eq)
  show "\<bar>x\<bar> / u < 2 ^ 53" using binade_bounds(2)[OF assms(1)] u b
    by (simp add: pos_divide_less_eq)
qed

lemma float64_pos_bounds:
  fixes x :: real
  assumes "0 < x"
  shows "2 powi \<lfloor>log 2 x\<rfloor> \<le> float64 x" "float64 x \<le> 2 powi (\<lfloor>log 2 x\<rfloor> + 1)"
proof -
  define u :: real where "u = 2 powi (\<lfloor>log 2 \<bar>x\<bar>\<rfloor> - 52)"
  have nz: "x \<noteq> 0" and ax: "\<bar>x\<bar> = x" using assms by simp_all
  note U = ulp_scaled[OF nz, folded u_def, unfolded ax]
  have f: "float64 x = of_int (round_half_even (x / u)) * u"
    using nz by (simp add: float64_def Let_def u_def)
  have "round_half_even (of_int (2 ^ 52)) \<le> round_half_even (x / u)"
    by (rule round_half_even_mono) (use U(2) in simp)
  then have "(2::real) ^ 52 \<le> of_int (round_half_even (x / u))"
    unfolding round_half_even_of_int by (metis of_int_le_iff of_int_numeral of_int_power)
  then have "2 ^ 52 * u \<le> float64 x" unfolding f using U(1) by simp
  then show "2 powi \<lfloor>log 2 x\<rfloor> \<le> float64 x" unfolding U(4) .
  have "round_half_even (x / u) \<le> round_half_even (of_int (2 ^ 53))"
    by (rule round_half_even_mono) (use U(3) in simp)
  then have "of_int (round_half_even (x / u)) \<le> (2::real) ^ 53"
    unfolding round_half_even_of_int by (metis of_int_le_iff of_int_numeral of_int_power)
  then have "float64 x \<le> 2 ^ 53 * u" unfolding f using U(1) by simp
  then show "float64 x \<le> 2 powi (\<lfloor>log 2 x\<rfloor> + 1)" unfolding U(5) .
qed

lemma float64_pos: "0 < x \<Longrightarrow> 0 < float64 x"
  using float64_pos_bounds(1)[of x] zero_less_power_int[of "2::real" "\<lfloor>log 2 x\<rfloor>"] by linarith

lemma float64_mono_pos:
  fixes x y :: real
  assumes "0 < x" "x \<le> y"
  shows "float64 x \<le> float64 y"
proof -
  have y: "0 < y" using assms by linarith
  have le: "\<lfloor>log 2 x\<rfloor> \<le> \<lfloor>log 2 y\<rfloor>"
    using assms y by (intro floor_mono) simp
  show ?thesis
  proof (cases "\<lfloor>log 2 x\<rfloor> = \<lfloor>log 2 y\<rfloor>")
    case True
    define u :: real where "u = 2 powi (\<lfloor>log 2 y\<rfloor> - 52)"
    have u: "0 < u" by (simp add: u_def)
    have "float64 x = of_int (round_half_even (x / u)) * u"
         "float64 y = of_int (round_half_even (y / u)) * u"
      using assms y True by (simp_all add: float64_def Let_def u_def)
    moreover have "round_half_even (x / u) \<le> round_half_even (y / u)"
      by (rule round_half_even_mono) (use assms u in \<open>simp add: divide_right_mono\<close>)
    ultimately show ?thesis using u by simp
  next
    case False
    then have "\<lfloor>log 2 x\<rfloor> + 1 \<le> \<lfloor>log 2 y\<rfloor>" using le by linarith
    then have "(2::real) powi (\<lfloor>log 2 x\<rfloor> + 1) \<le> 2 powi \<lfloor>log 2 y\<rfloor>"
      by (intro power_int_increasing) simp_all
    then show ?thesis
      using float64_pos_bounds(2)[OF assms(1)] float64_pos_bounds(1)[OF y] by linarith
  qed
qed

lemma float64_mono:
  assumes "x \<le> y"
  shows "float64 x \<le> float64 y"
proof -
  consider "0 < x" | "x = 0" "y = 0" | "x = 0" "0 < y" | "x < 0" "0 \<le> y" | "x < 0" "y < 0"
    using assms by linarith
  then show ?thesis
  proof cases
    case 1
    then show ?thesis using assms by (rule float64_mono_pos)
  next
    case 2
    then show ?thesis by simp
  next
    case 3
    then show ?thesis using float64_pos[of y] by simp
  next
    case 4
    have "0 < float64 (- x)" using 4 by (intro float64_pos) simp
    moreover have "0 \<le> float64 y" using 4 float64_pos[of y] by (cases "y = 0") auto
    ultimately show ?thesis by (simp add: float64_minus)
  next
    case 5
    have "float64 (- y) \<le> float64 (- x)" using 5 assms by (intro float64_mono_pos) simp_all
    then show ?thesis by (simp add: float64_minus)
  qed
qed

lemma float64_nonneg: "0 \<le> x \<Longrightarrow> 0 \<le> float64 x"
  using float64_mono[of 0 x] by simp

lemma float64_error: "\<bar>float64 x - x\<bar> \<le> \<bar>x\<bar> / 2 ^ 53"
proof (cases "x = 0")
  case True
  then show ?thesis by simp
next
  case False
  define u :: real where "u = 2 powi (\<lfloor>log 2 \<bar>x\<bar>\<rfloor> - 52)"
  note U = ulp_scaled[OF False, folded u_def]
  have f: "float64 x = of_int (round_half_even (x / u)) * u"
    using False by (simp add: float64_def Let_def u_def)
  have "float64 x - x = (of_int (round_half_even (x / u)) - x / u) * u"
    unfolding f using U(1) by (simp add: field_simps)
  then have "\<bar>float64 x - x\<bar> = \<bar>of_int (round_half_even (x / u)) - x / u\<bar> * u"
    using U(1) by (simp add: abs_mult)
  also have "\<dots> \<le> 1 / 2 * u"
    using round_half_even_error[of "x / u"] U(1) by (intro mult_right_mono) simp_all
  also have "\<dots> \<le> \<bar>x\<bar> / 2 ^ 53"
    using U(1,2) by (simp add: field_simps)
  finally show ?thesis .
qed

lemma round_half_even_unique:
  assumes "\<bar>y - of_int m\<bar> < 1 / 2"
  shows "round_half_even y = m"
proof -
  have "\<bar>of_int (round_half_even y) - of_int m :: real\<bar> < 1"
    using round_half_even_error[of y] assms by linarith
  then have "\<bar>round_half_even y - m\<bar> < 1"
    by (metis of_int_1 of_int_abs of_int_diff of_int_less_iff)
  then show ?thesis by linarith
qed

lemma float64_sqrt:
  fixes q :: real and m :: int and n :: nat
  assumes m: "2 ^ 52 < m" "m < 2 ^ 53"
    and lo: "(of_int m - 1 / 2)\<^sup>2 < q * 4 ^ n"
    and hi: "q * 4 ^ n < (of_int m + 1 / 2)\<^sup>2"
  shows "float64 (sqrt q) = of_int m / 2 ^ n"
proof -
  define y where "y = sqrt q * 2 ^ n"
  have m': "(2::real) ^ 52 + 1 \<le> of_int m" "of_int m + 1 \<le> (2::real) ^ 53"
  proof -
    have "(2::int) ^ 52 + 1 \<le> m" "m + 1 \<le> 2 ^ 53" using m by simp_all
    then have "(of_int (2 ^ 52 + 1) :: real) \<le> of_int m" "(of_int (m + 1) :: real) \<le> of_int (2 ^ 53)"
      by (simp_all only: of_int_le_iff)
    then show "(2::real) ^ 52 + 1 \<le> of_int m" "of_int m + 1 \<le> (2::real) ^ 53" by simp_all
  qed
  have q: "0 \<le> q"
  proof (rule ccontr)
    assume "\<not> 0 \<le> q"
    then have "q * 4 ^ n \<le> 0" by (simp add: mult_le_0_iff)
    then show False using lo zero_le_power2[of "of_int m - 1 / 2 :: real"] by linarith
  qed
  have y0: "0 \<le> y" using q by (simp add: y_def)
  have y2: "y\<^sup>2 = q * 4 ^ n"
  proof -
    have "y\<^sup>2 = (sqrt q)\<^sup>2 * (2 ^ n)\<^sup>2" by (simp add: y_def power_mult_distrib)
    also have "(sqrt q)\<^sup>2 = q" using q by simp
    also have "((2::real) ^ n)\<^sup>2 = 4 ^ n"
    proof -
      have "(4::real) ^ n = (2 * 2) ^ n" by simp
      also have "\<dots> = 2 ^ n * 2 ^ n" by (rule power_mult_distrib)
      finally show ?thesis by (simp only: power2_eq_square)
    qed
    finally show ?thesis .
  qed
  have "(0::real) \<le> 2 ^ 52" by simp
  then have mpos: "0 \<le> (of_int m + 1 / 2 :: real)" using m'(1) by linarith
  have l: "of_int m - 1 / 2 < y"
  proof (rule power2_less_imp_less)
    show "(of_int m - 1 / 2)\<^sup>2 < y\<^sup>2" using lo by (simp only: y2)
    show "0 \<le> y" by (rule y0)
  qed
  have h: "y < of_int m + 1 / 2"
  proof (rule power2_less_imp_less)
    show "y\<^sup>2 < (of_int m + 1 / 2)\<^sup>2" using hi by (simp only: y2)
    show "0 \<le> (of_int m + 1 / 2 :: real)" by (rule mpos)
  qed
  have abs: "\<bar>sqrt q\<bar> * 2 ^ n = y" using q by (simp add: y_def)
  have b1: "2 ^ 52 \<le> y" using l m'(1) by linarith
  have b2: "y < 2 ^ 53" using h m'(2) by linarith
  have "float64 (sqrt q) = of_int (round_half_even (sqrt q * 2 ^ n)) / 2 ^ n"
    by (rule float64_scaled) (simp_all only: abs b1 b2)
  moreover have "round_half_even y = m"
    by (rule round_half_even_unique) (use l h in linarith)
  ultimately show ?thesis by (simp only: y_def)
qed

lemma float64_numeral [simp]:
  "numeral k < (2::int) ^ 53 \<Longrightarrow> float64 (numeral k) = numeral k"
  using float64_of_int[of "numeral k"] by simp

lemma float64_one [simp]: "float64 1 = 1"
  using float64_of_int[of 1] by simp

lemma float64_between:
  assumes "float64 a = a" "float64 b = b" "a \<le> x" "x \<le> b"
  shows "a \<le> float64 x" "float64 x \<le> b"
  using float64_mono[OF assms(3)] float64_mono[OF assms(4)] assms(1,2) by simp_all

lemma float64_abs_error:
  "\<bar>x\<bar> - \<bar>x\<bar> / 2 ^ 53 \<le> \<bar>float64 x\<bar>" "\<bar>float64 x\<bar> \<le> \<bar>x\<bar> + \<bar>x\<bar> / 2 ^ 53"
  using float64_error[of x] by linarith+

lemma tolerance_ge_zero [simp]: "0 \<le> tolerance v"
  by (simp add: tolerance_def le_max_iff_disj)

text \<open>The roundings in the tolerance test for the request 0.5 and the reply 0.51.\<close>

lemma rounding_tolerance_1: "float64 (1 / 100) = 5764607523034235 / 576460752303423488"
  by (subst float64_scaled[where n = 59]) (simp_all add: round_half_even_def Let_def)

lemma rounding_tolerance_2: "float64 (51 / 100) = 2296835809958953 / 4503599627370496"
  by (subst float64_scaled[where n = 53]) (simp_all add: round_half_even_def Let_def)

lemma rounding_tolerance_3: "float64 (45035996273705 / 4503599627370496) = 45035996273705 / 4503599627370496"
  by (subst float64_scaled[where n = 59]) (simp_all add: round_half_even_def Let_def)

lemma rounding_tolerance_4: "float64 (5764607523034235 / 1152921504606846976) = 5764607523034235 / 1152921504606846976"
  by (subst float64_scaled[where n = 60]) (simp_all add: round_half_even_def Let_def)

lemma rounding_tolerance_5: "float64 (5764607523034235 / 576460752303423488) = 5764607523034235 / 576460752303423488"
  by (subst float64_scaled[where n = 59]) (simp_all add: round_half_even_def Let_def)

text \<open>The roundings of the method \<^verbatim>\<open>peak_aware\<close> at 40.\<close>

lemma rounding_peak_1: "float64 (7 / 10) = 3152519739159347 / 4503599627370496"
  by (subst float64_scaled[where n = 53]) (simp_all add: round_half_even_def Let_def)

lemma rounding_peak_2: "float64 (3 / 10) = 5404319552844595 / 18014398509481984"
  by (subst float64_scaled[where n = 54]) (simp_all add: round_half_even_def Let_def)

lemma rounding_peak_3: "float64 (15762598695796735 / 562949953421312) = 28"
  by (subst float64_scaled[where n = 48]) (simp_all add: round_half_even_def Let_def)

lemma rounding_peak_4: "float64 (27021597764222975 / 2251799813685248) = 12"
  by (subst float64_scaled[where n = 49]) (simp_all add: round_half_even_def Let_def)

text \<open>The roundings of the method \<^verbatim>\<open>average\<close> on the samples -30, 6 and -150.\<close>

lemma rounding_mixed_1: "float64 (50 / 3) = 4691249611844267 / 281474976710656"
  by (subst float64_scaled[where n = 48]) (simp_all add: round_half_even_def Let_def)

text \<open>The roundings of the method \<^verbatim>\<open>weighted_avg\<close> on seven samples -600.\<close>

lemma rounding_seven_1: "float64 (1 / 7) = 2573485501354569 / 18014398509481984"
  by (subst float64_scaled[where n = 55]) (simp_all add: round_half_even_def Let_def)

lemma rounding_seven_2: "float64 (2573485501354569 / 18014398509481984) = 2573485501354569 / 18014398509481984"
  by (subst float64_scaled[where n = 55]) (simp_all add: round_half_even_def Let_def)

lemma rounding_seven_3: "float64 (2573485501354569 / 9007199254740992) = 2573485501354569 / 9007199254740992"
  by (subst float64_scaled[where n = 54]) (simp_all add: round_half_even_def Let_def)

lemma rounding_seven_4: "float64 (7720456504063707 / 18014398509481984) = 7720456504063707 / 18014398509481984"
  by (subst float64_scaled[where n = 54]) (simp_all add: round_half_even_def Let_def)

lemma rounding_seven_5: "float64 (2573485501354569 / 4503599627370496) = 2573485501354569 / 4503599627370496"
  by (subst float64_scaled[where n = 53]) (simp_all add: round_half_even_def Let_def)

lemma rounding_seven_6: "float64 (12867427506772845 / 18014398509481984) = 3216856876693211 / 4503599627370496"
  by (subst float64_scaled[where n = 53]) (simp_all add: round_half_even_def Let_def)

lemma rounding_seven_7: "float64 (15440913008127413 / 18014398509481984) = 3860228252031853 / 4503599627370496"
  by (subst float64_scaled[where n = 53]) (simp_all add: round_half_even_def Let_def)

lemma rounding_seven_8: "float64 (18014398509481981 / 18014398509481984) = 4503599627370495 / 4503599627370496"
  by (subst float64_scaled[where n = 53]) (simp_all add: round_half_even_def Let_def)

lemma rounding_seven_9: "float64 (12867427506772845 / 2251799813685248) = 3216856876693211 / 562949953421312"
  by (subst float64_scaled[where n = 50]) (simp_all add: round_half_even_def Let_def)

lemma rounding_seven_10: "float64 (3216856876693211 / 562949953421312) = 3216856876693211 / 562949953421312"
  by (subst float64_scaled[where n = 50]) (simp_all add: round_half_even_def Let_def)

lemma rounding_seven_11: "float64 (3216856876693211 / 281474976710656) = 3216856876693211 / 281474976710656"
  by (subst float64_scaled[where n = 49]) (simp_all add: round_half_even_def Let_def)

lemma rounding_seven_12: "float64 (9650570630079633 / 562949953421312) = 603160664379977 / 35184372088832"
  by (subst float64_scaled[where n = 48]) (simp_all add: round_half_even_def Let_def)

lemma rounding_seven_13: "float64 (12867427506772843 / 562949953421312) = 3216856876693211 / 140737488355328"
  by (subst float64_scaled[where n = 48]) (simp_all add: round_half_even_def Let_def)

lemma rounding_seven_14: "float64 (16084284383466055 / 562949953421312) = 2010535547933257 / 70368744177664"
  by (subst float64_scaled[where n = 48]) (simp_all add: round_half_even_def Let_def)

lemma rounding_seven_15: "float64 (19301141260159267 / 562949953421312) = 4825285315039817 / 140737488355328"
  by (subst float64_scaled[where n = 47]) (simp_all add: round_half_even_def Let_def)

lemma rounding_seven_16: "float64 (22517998136852479 / 562949953421312) = 40"
  by (subst float64_scaled[where n = 47]) (simp_all add: round_half_even_def Let_def)

lemma rounding_seven_17: "float64 (36028797018963968 / 900719925474099) = 5629499534213121 / 140737488355328"
  by (subst float64_scaled[where n = 47]) (simp_all add: round_half_even_def Let_def)

text \<open>The roundings of the methods \<^verbatim>\<open>average\<close> and \<^verbatim>\<open>rms\<close> on three samples -29.\<close>

lemma rounding_three_1: "float64 (29 / 3) = 5441849549739349 / 562949953421312"
  by (subst float64_scaled[where n = 49]) (simp_all add: round_half_even_def Let_def)

lemma rounding_three_2: "float64 (5441849549739349 / 562949953421312) = 5441849549739349 / 562949953421312"
  by (subst float64_scaled[where n = 49]) (simp_all add: round_half_even_def Let_def)

lemma rounding_three_3: "float64 (5441849549739349 / 281474976710656) = 5441849549739349 / 281474976710656"
  by (subst float64_scaled[where n = 48]) (simp_all add: round_half_even_def Let_def)

lemma rounding_three_4: "float64 (16325548649218047 / 562949953421312) = 29"
  by (subst float64_scaled[where n = 48]) (simp_all add: round_half_even_def Let_def)

lemma rounding_three_5: "float64 (29613726521998355445953838943801 / 316912650057057350374175801344) = 3287784102967523 / 35184372088832"
  by (subst float64_scaled[where n = 46]) (simp_all add: round_half_even_def Let_def)

lemma rounding_three_6: "float64 (3287784102967523 / 35184372088832) = 3287784102967523 / 35184372088832"
  by (subst float64_scaled[where n = 46]) (simp_all add: round_half_even_def Let_def)

lemma rounding_three_7: "float64 (3287784102967523 / 17592186044416) = 3287784102967523 / 17592186044416"
  by (subst float64_scaled[where n = 45]) (simp_all add: round_half_even_def Let_def)

lemma rounding_three_8: "float64 (9863352308902569 / 35184372088832) = 1232919038612821 / 4398046511104"
  by (subst float64_scaled[where n = 44]) (simp_all add: round_half_even_def Let_def)

lemma rounding_three_9: "float64 (1232919038612821 / 13194139533312) = 6575568205935045 / 70368744177664"
  by (subst float64_scaled[where n = 46]) (simp_all add: round_half_even_def Let_def)

lemma rounding_three_10: "float64 (sqrt (6575568205935045 / 70368744177664)) = 1360462387434837 / 140737488355328"
  using float64_sqrt[of 5441849549739348 "6575568205935045 / 70368744177664" 49] by (simp add: power2_eq_square)

text \<open>The roundings of the method \<^verbatim>\<open>weighted_avg\<close> on 200 samples -600.\<close>

lemma rounding_scenario_1: "float64 (1 / 200) = 5764607523034235 / 1152921504606846976"
  by (subst float64_scaled[where n = 60]) (simp_all add: round_half_even_def Let_def)

lemma rounding_scenario_2: "float64 (17293822569102705 / 1152921504606846976) = 1080863910568919 / 72057594037927936"
  by (subst float64_scaled[where n = 59]) (simp_all add: round_half_even_def Let_def)

lemma rounding_scenario_3: "float64 (23058430092136939 / 1152921504606846976) = 5764607523034235 / 288230376151711744"
  by (subst float64_scaled[where n = 58]) (simp_all add: round_half_even_def Let_def)

lemma rounding_scenario_4: "float64 (28823037615171175 / 1152921504606846976) = 3602879701896397 / 144115188075855872"
  by (subst float64_scaled[where n = 58]) (simp_all add: round_half_even_def Let_def)

lemma rounding_scenario_5: "float64 (34587645138205411 / 1152921504606846976) = 8646911284551353 / 288230376151711744"
  by (subst float64_scaled[where n = 58]) (simp_all add: round_half_even_def Let_def)

lemma rounding_scenario_6: "float64 (40352252661239647 / 1152921504606846976) = 1261007895663739 / 36028797018963968"
  by (subst float64_scaled[where n = 57]) (simp_all add: round_half_even_def Let_def)

lemma rounding_scenario_7: "float64 (46116860184273883 / 1152921504606846976) = 5764607523034235 / 144115188075855872"
  by (subst float64_scaled[where n = 57]) (simp_all add: round_half_even_def Let_def)

lemma rounding_scenario_8: "float64 (51881467707308115 / 1152921504606846976) = 3242591731706757 / 72057594037927936"
  by (subst float64_scaled[where n = 57]) (simp_all add: round_half_even_def Let_def)

lemma rounding_scenario_9: "float64 (57646075230342347 / 1152921504606846976) = 7205759403792793 / 144115188075855872"
  by (subst float64_scaled[where n = 57]) (simp_all add: round_half_even_def Let_def)

lemma rounding_scenario_10: "float64 (63410682753376579 / 1152921504606846976) = 990791918021509 / 18014398509481984"
  by (subst float64_scaled[where n = 57]) (simp_all add: round_half_even_def Let_def)

lemma rounding_scenario_11: "float64 (69175290276410811 / 1152921504606846976) = 8646911284551351 / 144115188075855872"
  by (subst float64_scaled[where n = 57]) (simp_all add: round_half_even_def Let_def)

lemma rounding_scenario_12: "float64 (8646911284551351 / 72057594037927936) = 8646911284551351 / 72057594037927936"
  by (subst float64_scaled[where n = 56]) (simp_all add: round_half_even_def Let_def)

lemma rounding_scenario_13: "float64 (8646911284551351 / 36028797018963968) = 8646911284551351 / 36028797018963968"
  by (subst float64_scaled[where n = 55]) (simp_all add: round_half_even_def Let_def)

lemma rounding_scenario_14: "float64 (8646911284551351 / 18014398509481984) = 8646911284551351 / 18014398509481984"
  by (subst float64_scaled[where n = 54]) (simp_all add: round_half_even_def Let_def)

lemma rounding_scenario_15: "float64 (74939897799445043 / 1152921504606846976) = 4683743612465315 / 72057594037927936"
  by (subst float64_scaled[where n = 56]) (simp_all add: round_half_even_def Let_def)

lemma rounding_scenario_16: "float64 (4683743612465315 / 36028797018963968) = 4683743612465315 / 36028797018963968"
  by (subst float64_scaled[where n = 55]) (simp_all add: round_half_even_def Let_def)

lemma rounding_scenario_17: "float64 (4683743612465315 / 18014398509481984) = 4683743612465315 / 18014398509481984"
  by (subst float64_scaled[where n = 54]) (simp_all add: round_half_even_def Let_def)

lemma rounding_scenario_18: "float64 (4683743612465315 / 9007199254740992) = 4683743612465315 / 9007199254740992"
  by (subst float64_scaled[where n = 53]) (simp_all add: round_half_even_def Let_def)

lemma rounding_scenario_19: "float64 (28823037615171175 / 144115188075855872) = 3602879701896397 / 18014398509481984"
  by (subst float64_scaled[where n = 55]) (simp_all add: round_half_even_def Let_def)

lemma rounding_scenario_20: "float64 (3602879701896397 / 9007199254740992) = 3602879701896397 / 9007199254740992"
  by (subst float64_scaled[where n = 54]) (simp_all add: round_half_even_def Let_def)

lemma rounding_scenario_21: "float64 (10808639105689191 / 18014398509481984) = 1351079888211149 / 2251799813685248"
  by (subst float64_scaled[where n = 53]) (simp_all add: round_half_even_def Let_def)

lemma rounding_scenario_22: "float64 (14411518807585589 / 18014398509481984) = 3602879701896397 / 4503599627370496"
  by (subst float64_scaled[where n = 53]) (simp_all add: round_half_even_def Let_def)

lemma rounding_scenario_23: "float64 (18014398509481985 / 18014398509481984) = 1"
  by (subst float64_scaled[where n = 52]) (simp_all add: round_half_even_def Let_def)

lemma rounding_scenario_24: "float64 (21617278211378381 / 18014398509481984) = 5404319552844595 / 4503599627370496"
  by (subst float64_scaled[where n = 52]) (simp_all add: round_half_even_def Let_def)

lemma rounding_scenario_25: "float64 (25220157913274777 / 18014398509481984) = 3152519739159347 / 2251799813685248"
  by (subst float64_scaled[where n = 52]) (simp_all add: round_half_even_def Let_def)

lemma rounding_scenario_26: "float64 (28823037615171173 / 18014398509481984) = 7205759403792793 / 4503599627370496"
  by (subst float64_scaled[where n = 52]) (simp_all add: round_half_even_def Let_def)

lemma rounding_scenario_27: "float64 (32425917317067569 / 18014398509481984) = 2026619832316723 / 1125899906842624"
  by (subst float64_scaled[where n = 52]) (simp_all add: round_half_even_def Let_def)

lemma rounding_scenario_28: "float64 (36028797018963965 / 18014398509481984) = 9007199254740991 / 4503599627370496"
  by (subst float64_scaled[where n = 52]) (simp_all add: round_half_even_def Let_def)

lemma rounding_scenario_29: "float64 (39631676720860361 / 18014398509481984) = 4953959590107545 / 2251799813685248"
  by (subst float64_scaled[where n = 51]) (simp_all add: round_half_even_def Let_def)

lemma rounding_scenario_30: "float64 (43234556422756757 / 18014398509481984) = 5404319552844595 / 2251799813685248"
  by (subst float64_scaled[where n = 51]) (simp_all add: round_half_even_def Let_def)

lemma rounding_scenario_31: "float64 (5404319552844595 / 1125899906842624) = 5404319552844595 / 1125899906842624"
  by (subst float64_scaled[where n = 50]) (simp_all add: round_half_even_def Let_def)

lemma rounding_scenario_32: "float64 (5404319552844595 / 562949953421312) = 5404319552844595 / 562949953421312"
  by (subst float64_scaled[where n = 49]) (simp_all add: round_half_even_def Let_def)

lemma rounding_scenario_33: "float64 (5404319552844595 / 281474976710656) = 5404319552844595 / 281474976710656"
  by (subst float64_scaled[where n = 48]) (simp_all add: round_half_even_def Let_def)

lemma rounding_scenario_34: "float64 (46837436124653157 / 18014398509481984) = 5854679515581645 / 2251799813685248"
  by (subst float64_scaled[where n = 51]) (simp_all add: round_half_even_def Let_def)

lemma rounding_scenario_35: "float64 (5854679515581645 / 1125899906842624) = 5854679515581645 / 1125899906842624"
  by (subst float64_scaled[where n = 50]) (simp_all add: round_half_even_def Let_def)

lemma rounding_scenario_36: "float64 (5854679515581645 / 562949953421312) = 5854679515581645 / 562949953421312"
  by (subst float64_scaled[where n = 49]) (simp_all add: round_half_even_def Let_def)

lemma rounding_scenario_37: "float64 (5854679515581645 / 281474976710656) = 5854679515581645 / 281474976710656"
  by (subst float64_scaled[where n = 48]) (simp_all add: round_half_even_def Let_def)

text \<open>The roundings of the methods \<^verbatim>\<open>average\<close> and \<^verbatim>\<open>rms\<close> on 200 samples -0.3.\<close>

lemma rounding_tenth_1: "float64 (5404319552844595 / 54043195528445952) = 7205759403792793 / 72057594037927936"
  by (subst float64_scaled[where n = 56]) (simp_all add: round_half_even_def Let_def)

lemma rounding_tenth_2: "float64 (7205759403792793 / 36028797018963968) = 7205759403792793 / 36028797018963968"
  by (subst float64_scaled[where n = 55]) (simp_all add: round_half_even_def Let_def)

lemma rounding_tenth_3: "float64 (21617278211378379 / 72057594037927936) = 5404319552844595 / 18014398509481984"
  by (subst float64_scaled[where n = 54]) (simp_all add: round_half_even_def Let_def)

lemma rounding_tenth_4: "float64 (28823037615171173 / 72057594037927936) = 7205759403792793 / 18014398509481984"
  by (subst float64_scaled[where n = 54]) (simp_all add: round_half_even_def Let_def)

lemma rounding_tenth_5: "float64 (36028797018963965 / 72057594037927936) = 9007199254740991 / 18014398509481984"
  by (subst float64_scaled[where n = 54]) (simp_all add: round_half_even_def Let_def)

lemma rounding_tenth_6: "float64 (43234556422756757 / 72057594037927936) = 5404319552844595 / 9007199254740992"
  by (subst float64_scaled[where n = 53]) (simp_all add: round_half_even_def Let_def)

lemma rounding_tenth_7: "float64 (50440315826549553 / 72057594037927936) = 3152519739159347 / 4503599627370496"
  by (subst float64_scaled[where n = 53]) (simp_all add: round_half_even_def Let_def)

lemma rounding_tenth_8: "float64 (57646075230342345 / 72057594037927936) = 7205759403792793 / 9007199254740992"
  by (subst float64_scaled[where n = 53]) (simp_all add: round_half_even_def Let_def)

lemma rounding_tenth_9: "float64 (64851834634135137 / 72057594037927936) = 2026619832316723 / 2251799813685248"
  by (subst float64_scaled[where n = 53]) (simp_all add: round_half_even_def Let_def)

lemma rounding_tenth_10: "float64 (72057594037927929 / 72057594037927936) = 9007199254740991 / 9007199254740992"
  by (subst float64_scaled[where n = 53]) (simp_all add: round_half_even_def Let_def)

lemma rounding_tenth_11: "float64 (79263353441720721 / 72057594037927936) = 4953959590107545 / 4503599627370496"
  by (subst float64_scaled[where n = 52]) (simp_all add: round_half_even_def Let_def)

lemma rounding_tenth_12: "float64 (86469112845513513 / 72057594037927936) = 5404319552844595 / 4503599627370496"
  by (subst float64_scaled[where n = 52]) (simp_all add: round_half_even_def Let_def)

lemma rounding_tenth_13: "float64 (5404319552844595 / 2251799813685248) = 5404319552844595 / 2251799813685248"
  by (subst float64_scaled[where n = 51]) (simp_all add: round_half_even_def Let_def)

lemma rounding_tenth_14: "float64 (93674872249306313 / 72057594037927936) = 5854679515581645 / 4503599627370496"
  by (subst float64_scaled[where n = 52]) (simp_all add: round_half_even_def Let_def)

lemma rounding_tenth_15: "float64 (5854679515581645 / 2251799813685248) = 5854679515581645 / 2251799813685248"
  by (subst float64_scaled[where n = 51]) (simp_all add: round_half_even_def Let_def)

lemma rounding_tenth_16: "float64 (1 / 10) = 3602879701896397 / 36028797018963968"
  by (subst float64_scaled[where n = 56]) (simp_all add: round_half_even_def Let_def)

lemma rounding_tenth_17: "float64 (51922968585348267638393678740849 / 5192296858534827628530496329220096) = 2882303761517117 / 288230376151711744"
  by (subst float64_scaled[where n = 59]) (simp_all add: round_half_even_def Let_def)

lemma rounding_tenth_18: "float64 (2882303761517117 / 144115188075855872) = 2882303761517117 / 144115188075855872"
  by (subst float64_scaled[where n = 58]) (simp_all add: round_half_even_def Let_def)

lemma rounding_tenth_19: "float64 (8646911284551351 / 288230376151711744) = 8646911284551351 / 288230376151711744"
  by (subst float64_scaled[where n = 58]) (simp_all add: round_half_even_def Let_def)

lemma rounding_tenth_20: "float64 (2882303761517117 / 72057594037927936) = 2882303761517117 / 72057594037927936"
  by (subst float64_scaled[where n = 57]) (simp_all add: round_half_even_def Let_def)

lemma rounding_tenth_21: "float64 (14411518807585585 / 288230376151711744) = 900719925474099 / 18014398509481984"
  by (subst float64_scaled[where n = 57]) (simp_all add: round_half_even_def Let_def)

lemma rounding_tenth_22: "float64 (17293822569102701 / 288230376151711744) = 4323455642275675 / 72057594037927936"
  by (subst float64_scaled[where n = 57]) (simp_all add: round_half_even_def Let_def)

lemma rounding_tenth_23: "float64 (20176126330619817 / 288230376151711744) = 2522015791327477 / 36028797018963968"
  by (subst float64_scaled[where n = 56]) (simp_all add: round_half_even_def Let_def)

lemma rounding_tenth_24: "float64 (23058430092136933 / 288230376151711744) = 5764607523034233 / 72057594037927936"
  by (subst float64_scaled[where n = 56]) (simp_all add: round_half_even_def Let_def)

lemma rounding_tenth_25: "float64 (25940733853654049 / 288230376151711744) = 810647932926689 / 9007199254740992"
  by (subst float64_scaled[where n = 56]) (simp_all add: round_half_even_def Let_def)

lemma rounding_tenth_26: "float64 (28823037615171165 / 288230376151711744) = 7205759403792791 / 72057594037927936"
  by (subst float64_scaled[where n = 56]) (simp_all add: round_half_even_def Let_def)

lemma rounding_tenth_27: "float64 (31705341376688281 / 288230376151711744) = 3963167672086035 / 36028797018963968"
  by (subst float64_scaled[where n = 56]) (simp_all add: round_half_even_def Let_def)

lemma rounding_tenth_28: "float64 (34587645138205397 / 288230376151711744) = 8646911284551349 / 72057594037927936"
  by (subst float64_scaled[where n = 56]) (simp_all add: round_half_even_def Let_def)

lemma rounding_tenth_29: "float64 (8646911284551349 / 36028797018963968) = 8646911284551349 / 36028797018963968"
  by (subst float64_scaled[where n = 55]) (simp_all add: round_half_even_def Let_def)

lemma rounding_tenth_30: "float64 (8646911284551349 / 18014398509481984) = 8646911284551349 / 18014398509481984"
  by (subst float64_scaled[where n = 54]) (simp_all add: round_half_even_def Let_def)

lemma rounding_tenth_31: "float64 (8646911284551349 / 9007199254740992) = 8646911284551349 / 9007199254740992"
  by (subst float64_scaled[where n = 53]) (simp_all add: round_half_even_def Let_def)

lemma rounding_tenth_32: "float64 (37469948899722513 / 288230376151711744) = 2341871806232657 / 18014398509481984"
  by (subst float64_scaled[where n = 55]) (simp_all add: round_half_even_def Let_def)

lemma rounding_tenth_33: "float64 (2341871806232657 / 9007199254740992) = 2341871806232657 / 9007199254740992"
  by (subst float64_scaled[where n = 54]) (simp_all add: round_half_even_def Let_def)

lemma rounding_tenth_34: "float64 (2341871806232657 / 4503599627370496) = 2341871806232657 / 4503599627370496"
  by (subst float64_scaled[where n = 53]) (simp_all add: round_half_even_def Let_def)

lemma rounding_tenth_35: "float64 (2341871806232657 / 2251799813685248) = 2341871806232657 / 2251799813685248"
  by (subst float64_scaled[where n = 52]) (simp_all add: round_half_even_def Let_def)

lemma rounding_tenth_36: "float64 (18014398509481977 / 9007199254740992) = 2251799813685247 / 1125899906842624"
  by (subst float64_scaled[where n = 52]) (simp_all add: round_half_even_def Let_def)

lemma rounding_tenth_37: "float64 (2251799813685247 / 225179981368524800) = 720575940379279 / 72057594037927936"
  by (subst float64_scaled[where n = 59]) (simp_all add: round_half_even_def Let_def)

lemma rounding_tenth_38: "float64 (sqrt (720575940379279 / 72057594037927936)) = 900719925474099 / 9007199254740992"
  using float64_sqrt[of 7205759403792792 "720575940379279 / 72057594037927936" 56] by (simp add: power2_eq_square)

lemmas roundings =
  rounding_tolerance_1 rounding_tolerance_2 rounding_tolerance_3 rounding_tolerance_4
  rounding_tolerance_5 rounding_peak_1 rounding_peak_2 rounding_peak_3 rounding_peak_4
  rounding_mixed_1 rounding_seven_1 rounding_seven_2 rounding_seven_3 rounding_seven_4
  rounding_seven_5 rounding_seven_6 rounding_seven_7 rounding_seven_8 rounding_seven_9
  rounding_seven_10 rounding_seven_11 rounding_seven_12 rounding_seven_13 rounding_seven_14
  rounding_seven_15 rounding_seven_16 rounding_seven_17 rounding_three_1 rounding_three_2
  rounding_three_3 rounding_three_4 rounding_three_5 rounding_three_6 rounding_three_7
  rounding_three_8 rounding_three_9 rounding_three_10 rounding_scenario_1
  rounding_scenario_2 rounding_scenario_3 rounding_scenario_4 rounding_scenario_5
  rounding_scenario_6 rounding_scenario_7 rounding_scenario_8 rounding_scenario_9
  rounding_scenario_10 rounding_scenario_11 rounding_scenario_12 rounding_scenario_13
  rounding_scenario_14 rounding_scenario_15 rounding_scenario_16 rounding_scenario_17
  rounding_scenario_18 rounding_scenario_19 rounding_scenario_20 rounding_scenario_21
  rounding_scenario_22 rounding_scenario_23 rounding_scenario_24 rounding_scenario_25
  rounding_scenario_26 rounding_scenario_27 rounding_scenario_28 rounding_scenario_29
  rounding_scenario_30 rounding_scenario_31 rounding_scenario_32 rounding_scenario_33
  rounding_scenario_34 rounding_scenario_35 rounding_scenario_36 rounding_scenario_37
  rounding_tenth_1 rounding_tenth_2 rounding_tenth_3 rounding_tenth_4 rounding_tenth_5
  rounding_tenth_6 rounding_tenth_7 rounding_tenth_8 rounding_tenth_9 rounding_tenth_10
  rounding_tenth_11 rounding_tenth_12 rounding_tenth_13 rounding_tenth_14 rounding_tenth_15
  rounding_tenth_16 rounding_tenth_17 rounding_tenth_18 rounding_tenth_19 rounding_tenth_20
  rounding_tenth_21 rounding_tenth_22 rounding_tenth_23 rounding_tenth_24 rounding_tenth_25
  rounding_tenth_26 rounding_tenth_27 rounding_tenth_28 rounding_tenth_29 rounding_tenth_30
  rounding_tenth_31 rounding_tenth_32 rounding_tenth_33 rounding_tenth_34 rounding_tenth_35
  rounding_tenth_36 rounding_tenth_37 rounding_tenth_38

section \<open>Facts about the channel\<close>

lemma link_simps [simp]:
  "link (log_message m s) = link s"
  "link (sleep d s) = link s"
  "link (snd (instrument_call c s)) = link s"
  "link (clear_pending_errors a s) = link s"
  "link (snd (verify_setting v s)) = link s"
  "link (wait_command_interval s) = link s"
  using frame_log_message[of s m] frame_sleep[of s d] frame_instrument_call[of s c]
    frame_clear[of s s a] frame_verify[of s s v] frame_wait[of s s]
  by (simp_all add: frame_def)

lemma calls_simps [simp]:
  "calls (log_message m s) = calls s"
  "calls (sleep d s) = calls s"
  "calls (snd (instrument_call c s)) = calls s + 1"
  "calls (clear_pending_errors a s) = (if a > 0 then calls s + 1 else calls s)"
  "calls (snd (verify_setting v s)) = calls s + 1"
  "calls (wait_command_interval s) = calls s"
  by (simp_all add: log_message_def sleep_def instrument_call_eq clear_pending_errors_def
      verify_setting_def wait_command_interval_def Let_def case_prod_beta
      split: reply.splits option.splits)

lemma fst_instrument_call [simp]:
  "fst (instrument_call c s) = snd (link s (calls s))"
  by (simp add: instrument_call_eq)

lemma sent_simps [simp]:
  "sent (log_message m s) = sent s"
  "sent (sleep d s) = sent s"
  "sent (wait_command_interval s) = sent s"
  "sent (snd (instrument_call c s)) = sent s @ [(clock s, c)]"
  by (simp_all add: log_message_def sleep_def instrument_call_eq wait_command_interval_def Let_def)

lemma console_simps [simp]:
  "console (log_message m s) = console s @ [m]"
  "console (sleep d s) = console s"
  "console (snd (instrument_call c s)) = console s"
  by (simp_all add: log_message_def sleep_def instrument_call_eq)

section \<open>The interpolation of a window\<close>

lemma process_current_bounds:
  assumes "min_current c \<le> 0" "0 \<le> max_current c"
  shows "0 \<le> process_current c x" "process_current c x \<le> max_current c"
  using assms by (auto simp: process_current_def Let_def max_def min_def)

lemma process_current_nonneg:
  "0 \<le> max_current c \<Longrightarrow> 0 \<le> process_current c x"
  by (auto simp: process_current_def Let_def max_def min_def)

lemma sum_list_bounds:
  fixes xs :: "real list"
  assumes "\<forall>x\<in>set xs. a \<le> x \<and> x \<le> b"
  shows "real (length xs) * a \<le> sum_list xs" "sum_list xs \<le> real (length xs) * b"
  using assms by (induction xs) (auto simp: algebra_simps)

lemma np_mean_bounds:
  assumes "xs \<noteq> []" "\<forall>x\<in>set xs. a \<le> x \<and> x \<le> b"
  shows "a \<le> np_mean xs" "np_mean xs \<le> b"
proof -
  have n: "0 < real (length xs)" using assms(1) by simp
  show "a \<le> np_mean xs"
    using sum_list_bounds(1)[OF assms(2)] n
    by (simp add: np_mean_def pos_le_divide_eq mult.commute)
  show "np_mean xs \<le> b"
    using sum_list_bounds(2)[OF assms(2)] n
    by (simp add: np_mean_def pos_divide_le_eq mult.commute)
qed

lemma squares_bounds:
  assumes "\<forall>x\<in>set xs. 0 \<le> x \<and> x \<le> b"
  shows "\<forall>y\<in>set (squares xs). 0 \<le> y \<and> y \<le> b ^ 2"
  using assms by (auto simp: squares_def power_mono)

lemma rms_bounds:
  assumes "xs \<noteq> []" "\<forall>x\<in>set xs. 0 \<le> x \<and> x \<le> b"
  shows "0 \<le> sqrt (np_mean (squares xs))" "sqrt (np_mean (squares xs)) \<le> b"
proof -
  have ne: "squares xs \<noteq> []" using assms(1) by (simp add: squares_def)
  have b0: "0 \<le> b" using assms by (cases xs) auto
  have m: "0 \<le> np_mean (squares xs)" "np_mean (squares xs) \<le> b ^ 2"
    using np_mean_bounds[OF ne squares_bounds[OF assms(2)]] by simp_all
  show "0 \<le> sqrt (np_mean (squares xs))" using m(1) by simp
  have "sqrt (np_mean (squares xs)) \<le> sqrt (b ^ 2)"
    using m(2) by (rule real_sqrt_le_mono)
  then show "sqrt (np_mean (squares xs)) \<le> b" using b0 by simp
qed

lemma np_max_bounds:
  assumes "xs \<noteq> []" "\<forall>x\<in>set xs. a \<le> x \<and> x \<le> (b::real)"
  shows "\<exists>m. np_max xs = Some m \<and> a \<le> m \<and> m \<le> b"
proof -
  have f: "a \<le> y \<and> y \<le> b \<Longrightarrow> \<forall>x\<in>set ys. a \<le> x \<and> x \<le> b \<Longrightarrow> a \<le> fold max ys y \<and> fold max ys y \<le> b" for ys y
    by (induction ys arbitrary: y) (auto simp: max_def)
  show ?thesis using assms f by (cases xs) auto
qed

lemma map2_times_map:
  "map2 (*) xs (map f xs) = map (\<lambda>x. x * f x) (xs :: real list)"
  by (induction xs) auto

lemma sum_list_squares_le:
  assumes "\<forall>x\<in>set xs. 0 \<le> x \<and> x \<le> (b::real)"
  shows "(\<Sum>x\<leftarrow>xs. x * x) \<le> b * sum_list xs"
proof -
  have 1: "0 \<le> a \<Longrightarrow> a \<le> b \<Longrightarrow> a * a \<le> a * b" for a :: real
    by (simp add: mult_left_mono)
  show "(\<Sum>x\<leftarrow>xs. x * x) \<le> b * sum_list xs"
    using assms by (induction xs) (auto simp: algebra_simps intro!: add_mono 1)
qed

lemma sum_list_squares_nonneg: "0 \<le> (\<Sum>x\<leftarrow>xs. x * (x::real))"
  by (induction xs) auto

lemma weighted_positive:
  assumes "0 < sum_list (xs::real list)"
  shows "np_average xs (map (\<lambda>x. x / sum_list xs) xs) = Some ((\<Sum>x\<leftarrow>xs. x * x) / sum_list xs)"
proof -
  let ?S = "sum_list xs"
  have w: "sum_list (map (\<lambda>x. x / ?S) xs) = 1"
    using assms by (simp add: divide_inverse sum_list_mult_const)
  have "sum_list (map (\<lambda>x. x * (x / ?S)) xs) = (\<Sum>x\<leftarrow>xs. x * x) / ?S"
    by (simp add: divide_inverse sum_list_mult_const mult.assoc[symmetric])
  then show ?thesis by (simp add: np_average_def map2_times_map w)
qed

lemma weighted_uniform:
  assumes "xs \<noteq> []"
  shows "np_average xs (map (\<lambda>x. 1) xs) = Some (np_mean xs)"
proof -
  have "sum_list (map (\<lambda>x. 1::real) xs) = real (length xs)"
    by (simp add: sum_list_triv)
  then show ?thesis using assms by (simp add: np_average_def map2_times_map np_mean_def)
qed


lemma processed_currents_bounds:
  assumes "min_current c \<le> 0" "0 \<le> max_current c"
  shows "\<forall>x\<in>set (processed_currents c xs). 0 \<le> x \<and> x \<le> max_current c"
  using process_current_bounds[OF assms] by (auto simp: processed_currents_def)

lemma weighted_bounds:
  assumes "xs \<noteq> []" "\<forall>x\<in>set xs. 0 \<le> x \<and> x \<le> (b::real)"
  shows "\<exists>r. np_average xs (if np_sum xs > 0 then map (\<lambda>x. x / np_sum xs) xs
                            else map (\<lambda>x. 1) xs) = Some r \<and> 0 \<le> r \<and> r \<le> b"
proof (cases "0 < sum_list xs")
  case True
  have "(\<Sum>x\<leftarrow>xs. x * x) / sum_list xs \<le> b"
    using sum_list_squares_le[OF assms(2)] True by (simp add: pos_divide_le_eq)
  moreover have "0 \<le> (\<Sum>x\<leftarrow>xs. x * x) / sum_list xs"
    using sum_list_squares_nonneg[of xs] True by simp
  ultimately show ?thesis using True by (simp add: np_sum_def weighted_positive)
next
  case False
  then show ?thesis
    using np_mean_bounds[OF assms] assms(1) by (simp add: np_sum_def weighted_uniform)
qed

lemma energy_is_rms:
  "sqrt (np_sum (squares xs) / real (length xs)) = sqrt (np_mean (squares xs))"
  by (simp add: np_sum_def np_mean_def squares_def)

lemma pairwise_sum_short:
  "length a < 8 \<Longrightarrow> pairwise_sum a = foldl (\<lambda>res x. float64 (res + x)) 0 a"
  by (subst pairwise_sum.simps) simp

lemma foldl_add_bounds:
  assumes "\<forall>k\<le>N. float64 (L * real k) = L * real k"
    and "\<forall>k\<le>N. float64 (M * real k) = M * real k"
    and "\<forall>x\<in>set xs. L \<le> x \<and> x \<le> M"
    and "L * real j \<le> res" "res \<le> M * real j"
    and "j + length xs \<le> N"
  shows "L * real (j + length xs) \<le> foldl (\<lambda>res x. float64 (res + x)) res xs
         \<and> foldl (\<lambda>res x. float64 (res + x)) res xs \<le> M * real (j + length xs)"
  using assms(3-6)
proof (induction xs arbitrary: res j)
  case Nil
  then show ?case by simp
next
  case (Cons x xs)
  have j: "Suc j \<le> N" using Cons.prems(4) by simp
  have "float64 (L * real (Suc j)) \<le> float64 (res + x)"
    by (rule float64_mono) (use Cons.prems in \<open>simp add: algebra_simps\<close>)
  then have l: "L * real (Suc j) \<le> float64 (res + x)"
    using assms(1) j by (simp del: of_nat_Suc)
  have "float64 (res + x) \<le> float64 (M * real (Suc j))"
    by (rule float64_mono) (use Cons.prems in \<open>simp add: algebra_simps\<close>)
  then have u: "float64 (res + x) \<le> M * real (Suc j)"
    using assms(2) j by (simp del: of_nat_Suc)
  have "L * real (Suc j + length xs) \<le> foldl (\<lambda>res x. float64 (res + x)) (float64 (res + x)) xs
         \<and> foldl (\<lambda>res x. float64 (res + x)) (float64 (res + x)) xs \<le> M * real (Suc j + length xs)"
    by (rule Cons.IH) (use Cons.prems l u in simp_all)
  then show ?case by simp
qed

lemma float64_add_bounds:
  assumes "\<forall>k\<le>N. float64 (L * real k) = L * real k"
    and "\<forall>k\<le>N. float64 (M * real k) = M * real k"
    and "L * real i \<le> x" "x \<le> M * real i" "L * real j \<le> y" "y \<le> M * real j"
    and "i + j \<le> N"
  shows "L * real (i + j) \<le> float64 (x + y)" "float64 (x + y) \<le> M * real (i + j)"
proof -
  have e: "float64 (L * real (i + j)) = L * real (i + j)"
          "float64 (M * real (i + j)) = M * real (i + j)"
    using assms(1,2,7) by blast+
  have "float64 (L * real (i + j)) \<le> float64 (x + y)"
    by (rule float64_mono) (use assms(3,5) in \<open>simp add: algebra_simps\<close>)
  then show "L * real (i + j) \<le> float64 (x + y)" by (simp only: e)
  have "float64 (x + y) \<le> float64 (M * real (i + j))"
    by (rule float64_mono) (use assms(4,6) in \<open>simp add: algebra_simps\<close>)
  then show "float64 (x + y) \<le> M * real (i + j)" by (simp only: e)
qed

lemma accumulate_bounds:
  assumes "\<forall>k\<le>N. float64 (L * real k) = L * real k"
    and "\<forall>k\<le>N. float64 (M * real k) = M * real k"
    and "\<forall>i\<in>set is. length (f i) = length r \<and> (\<forall>y\<in>set (f i). L \<le> y \<and> y \<le> M)"
    and "\<forall>x\<in>set r. L * real k \<le> x \<and> x \<le> M * real k"
    and "k + length is \<le> N"
  shows "length (foldl (\<lambda>r i. map2 (\<lambda>x y. float64 (x + y)) r (f i)) r is) = length r
         \<and> (\<forall>x\<in>set (foldl (\<lambda>r i. map2 (\<lambda>x y. float64 (x + y)) r (f i)) r is).
               L * real (k + length is) \<le> x \<and> x \<le> M * real (k + length is))"
  using assms(3-5)
proof (induction "is" arbitrary: r k)
  case Nil
  then show ?case by simp
next
  case (Cons i "is")
  let ?r = "map2 (\<lambda>x y. float64 (x + y)) r (f i)"
  have len: "length ?r = length r" using Cons.prems(1) by simp
  have b: "\<forall>x\<in>set ?r. L * real (Suc k) \<le> x \<and> x \<le> M * real (Suc k)"
  proof
    fix z assume "z \<in> set ?r"
    then obtain x y where xy: "(x, y) \<in> set (zip r (f i))" "z = float64 (x + y)" by auto
    then have x: "x \<in> set r" and y: "y \<in> set (f i)"
      by (auto dest: set_zip_leftD set_zip_rightD)
    have "L * real (k + 1) \<le> float64 (x + y)" "float64 (x + y) \<le> M * real (k + 1)"
      by (rule float64_add_bounds[OF assms(1,2), of k x 1 y]; use Cons.prems x y in force)+
    then show "L * real (Suc k) \<le> z \<and> z \<le> M * real (Suc k)" using xy(2) by simp
  qed
  have "length (foldl (\<lambda>r i. map2 (\<lambda>x y. float64 (x + y)) r (f i)) ?r is) = length ?r
         \<and> (\<forall>x\<in>set (foldl (\<lambda>r i. map2 (\<lambda>x y. float64 (x + y)) r (f i)) ?r is).
               L * real (Suc k + length is) \<le> x \<and> x \<le> M * real (Suc k + length is))"
    by (rule Cons.IH) (use Cons.prems b len in simp_all)
  then show ?case using len by simp
qed

lemma pairwise_sum_bounds:
  assumes ex: "\<forall>k\<le>N. float64 (L * real k) = L * real k"
              "\<forall>k\<le>N. float64 (M * real k) = M * real k"
    and "length a \<le> N" and "\<forall>x\<in>set a. L \<le> x \<and> x \<le> M"
  shows "L * real (length a) \<le> pairwise_sum a \<and> pairwise_sum a \<le> M * real (length a)"
  using assms(3,4)
proof (induction "length a" arbitrary: a rule: less_induct)
  case less
  let ?n = "length a"
  let ?add = "\<lambda>res x. float64 (res + x)"
  consider "?n < 8" | "8 \<le> ?n" "?n \<le> 128" | "128 < ?n" by linarith
  then show ?case
  proof cases
    case 1
    have "L * real (0 + ?n) \<le> foldl ?add 0 a \<and> foldl ?add 0 a \<le> M * real (0 + ?n)"
      by (rule foldl_add_bounds[OF ex]) (use less.prems in simp_all)
    then show ?thesis using 1 by (simp add: pairwise_sum_short)
  next
    case 2
    define m where "m = ?n div 8"
    define f where "f = (\<lambda>i. take 8 (drop (8 * i) a))"
    define r where "r = foldl (\<lambda>r i. map2 ?add r (f i)) (take 8 a) [1..<m]"
    define res where "res = float64 (float64 (float64 (r ! 0 + r ! 1) + float64 (r ! 2 + r ! 3))
                            + float64 (float64 (r ! 4 + r ! 5) + float64 (r ! 6 + r ! 7)))"
    have m: "1 \<le> m" "8 * m \<le> ?n" using 2 by (simp_all add: m_def)
    have unfold: "pairwise_sum a = foldl ?add res (drop (8 * m) a)"
      using 2 by (subst pairwise_sum.simps) (simp add: Let_def res_def r_def f_def m_def)
    have blk: "\<forall>i\<in>set [1..<m]. length (f i) = length (take 8 a)
                 \<and> (\<forall>y\<in>set (f i). L \<le> y \<and> y \<le> M)"
    proof
      fix i assume "i \<in> set [1..<m]"
      then have "8 * i + 8 \<le> ?n" using m(2) by simp
      then have "length (f i) = length (take 8 a)" by (simp add: f_def)
      moreover have "set (f i) \<subseteq> set a"
        unfolding f_def by (meson set_take_subset set_drop_subset subset_trans)
      ultimately show "length (f i) = length (take 8 a) \<and> (\<forall>y\<in>set (f i). L \<le> y \<and> y \<le> M)"
        using less.prems(2) by blast
    qed
    have first: "\<forall>x\<in>set (take 8 a). L * real 1 \<le> x \<and> x \<le> M * real 1"
      using less.prems(2) by (auto dest: in_set_takeD)
    have "1 + length [1..<m] \<le> N" using m less.prems(1) by simp
    from accumulate_bounds[OF ex blk first this]
    have len: "length r = 8" and rb: "\<forall>x\<in>set r. L * real m \<le> x \<and> x \<le> M * real m"
      using m 2 by (simp_all add: r_def)
    have nth: "L * real m \<le> r ! j \<and> r ! j \<le> M * real m" if "j < 8" for j
      using rb that len by simp
    have N2: "m + m \<le> N" "(m + m) + (m + m) \<le> N" "((m + m) + (m + m)) + ((m + m) + (m + m)) \<le> N"
      using m(2) less.prems(1) by simp_all
    note two = float64_add_bounds[OF ex _ _ _ _ N2(1)]
    note four = float64_add_bounds[OF ex _ _ _ _ N2(2)]
    note eight = float64_add_bounds[OF ex _ _ _ _ N2(3)]
    have p01: "L * real (m + m) \<le> float64 (r ! 0 + r ! 1)" "float64 (r ! 0 + r ! 1) \<le> M * real (m + m)"
      by (rule two; use nth[of 0] nth[of 1] in simp)+
    have p23: "L * real (m + m) \<le> float64 (r ! 2 + r ! 3)" "float64 (r ! 2 + r ! 3) \<le> M * real (m + m)"
      by (rule two; use nth[of 2] nth[of 3] in simp)+
    have p45: "L * real (m + m) \<le> float64 (r ! 4 + r ! 5)" "float64 (r ! 4 + r ! 5) \<le> M * real (m + m)"
      by (rule two; use nth[of 4] nth[of 5] in simp)+
    have p67: "L * real (m + m) \<le> float64 (r ! 6 + r ! 7)" "float64 (r ! 6 + r ! 7) \<le> M * real (m + m)"
      by (rule two; use nth[of 6] nth[of 7] in simp)+
    have q0: "L * real ((m + m) + (m + m)) \<le> float64 (float64 (r ! 0 + r ! 1) + float64 (r ! 2 + r ! 3))"
             "float64 (float64 (r ! 0 + r ! 1) + float64 (r ! 2 + r ! 3)) \<le> M * real ((m + m) + (m + m))"
      by (rule four[OF p01(1) p01(2) p23(1) p23(2)])+
    have q1: "L * real ((m + m) + (m + m)) \<le> float64 (float64 (r ! 4 + r ! 5) + float64 (r ! 6 + r ! 7))"
             "float64 (float64 (r ! 4 + r ! 5) + float64 (r ! 6 + r ! 7)) \<le> M * real ((m + m) + (m + m))"
      by (rule four[OF p45(1) p45(2) p67(1) p67(2)])+
    have "L * real (((m + m) + (m + m)) + ((m + m) + (m + m))) \<le> res"
         "res \<le> M * real (((m + m) + (m + m)) + ((m + m) + (m + m)))"
      unfolding res_def by (rule eight[OF q0(1) q0(2) q1(1) q1(2)])+
    then have rs: "L * real (8 * m) \<le> res" "res \<le> M * real (8 * m)"
      by (simp_all add: algebra_simps)
    have "L * real (8 * m + length (drop (8 * m) a)) \<le> foldl ?add res (drop (8 * m) a)
          \<and> foldl ?add res (drop (8 * m) a) \<le> M * real (8 * m + length (drop (8 * m) a))"
      by (rule foldl_add_bounds[OF ex _ rs])
         (use less.prems m(2) in \<open>auto dest: in_set_dropD\<close>)
    then show ?thesis using m(2) by (simp add: unfold)
  next
    case 3
    define n2 where "n2 = ?n div 2 - ?n div 2 mod 8"
    have n2: "0 < n2" "n2 < ?n" using 3 by (simp_all add: n2_def)
    have unfold: "pairwise_sum a = float64 (pairwise_sum (take n2 a) + pairwise_sum (drop n2 a))"
      using 3 by (subst pairwise_sum.simps) (simp add: Let_def n2_def)
    have t: "L * real (length (take n2 a)) \<le> pairwise_sum (take n2 a)
             \<and> pairwise_sum (take n2 a) \<le> M * real (length (take n2 a))"
      by (rule less.hyps) (use n2 less.prems in \<open>auto dest: in_set_takeD\<close>)
    have d: "L * real (length (drop n2 a)) \<le> pairwise_sum (drop n2 a)
             \<and> pairwise_sum (drop n2 a) \<le> M * real (length (drop n2 a))"
      by (rule less.hyps) (use n2 less.prems in \<open>auto dest: in_set_dropD\<close>)
    have lt: "length (take n2 a) = n2" "length (drop n2 a) = ?n - n2" using n2 by simp_all
    have "n2 + (?n - n2) \<le> N" using n2 less.prems(1) by simp
    from float64_add_bounds[OF ex _ _ _ _ this, of "pairwise_sum (take n2 a)" "pairwise_sum (drop n2 a)"]
    show ?thesis using t d n2 unfolding unfold lt by simp
  qed
qed


lemma exact_multiples:
  assumes "k \<le> 2 ^ 40"
  shows "float64 (0 * real k) = 0 * real k" "float64 (1 * real k) = 1 * real k"
        "float64 (40 * real k) = 40 * real k" "float64 (1600 * real k) = 1600 * real k"
proof -
  have k: "int k \<le> 2 ^ 40" using assms by (metis of_nat_le_iff of_nat_numeral of_nat_power)
  show "float64 (0 * real k) = 0 * real k" by simp
  have "float64 (of_int (int k)) = of_int (int k)"
    by (rule float64_of_int) (use k in simp)
  then show "float64 (1 * real k) = 1 * real k" by simp
  have "float64 (of_int (40 * int k)) = of_int (40 * int k)"
    by (rule float64_of_int) (use k in simp)
  then show "float64 (40 * real k) = 40 * real k" by simp
  have "float64 (of_int (1600 * int k)) = of_int (1600 * int k)"
    by (rule float64_of_int) (use k in simp)
  then show "float64 (1600 * real k) = 1600 * real k" by simp
qed

lemma float64_40 [simp]: "float64 40 = 40"
  using float64_of_int[of 40] by simp

lemma float64_1600 [simp]: "float64 1600 = 1600"
  using float64_of_int[of 1600] by simp

lemma process_current_f64_bounds:
  assumes "min_current c \<le> max_current c"
  shows "min_current c \<le> process_current_f64 c x" "process_current_f64 c x \<le> max_current c"
  using assms by (simp_all add: process_current_f64_def Let_def)

lemma np_mean_f64_bounds:
  assumes "a \<noteq> []" "length a \<le> 2 ^ 40" "\<forall>x\<in>set a. 0 \<le> x \<and> x \<le> M" "M = 40 \<or> M = 1600"
  shows "0 \<le> np_mean_f64 a" "np_mean_f64 a \<le> M"
proof -
  let ?n = "real (length a)"
  have n: "0 < ?n" using assms(1) by simp
  have "0 * ?n \<le> pairwise_sum a \<and> pairwise_sum a \<le> M * ?n"
    by (rule pairwise_sum_bounds[where N = "2 ^ 40"])
       (use assms exact_multiples in auto)
  then have q: "0 \<le> pairwise_sum a / ?n" "pairwise_sum a / ?n \<le> M"
    using n by (simp_all add: pos_divide_le_eq)
  have M: "float64 M = M" using assms(4) by auto
  show "0 \<le> np_mean_f64 a" "np_mean_f64 a \<le> M"
    unfolding np_mean_f64_def np_sum_f64_def
    by (rule float64_between[OF float64_zero M q])+
qed

lemma squares_f64_bounds:
  assumes "\<forall>x\<in>set a. 0 \<le> x \<and> x \<le> 40"
  shows "\<forall>y\<in>set (squares_f64 a). 0 \<le> y \<and> y \<le> 1600"
proof
  fix y assume "y \<in> set (squares_f64 a)"
  then obtain x where x: "x \<in> set a" "y = float64 (x * x)" by (auto simp: squares_f64_def)
  then have "0 \<le> x \<and> x \<le> 40" using assms by blast
  then have "0 \<le> x * x" "x * x \<le> 40 * 40" by (simp, intro mult_mono, simp_all)
  then have xx: "0 \<le> x * x" "x * x \<le> 1600" by simp_all
  have "0 \<le> float64 (x * x)" "float64 (x * x) \<le> 1600"
    by (rule float64_between[OF float64_zero float64_1600 xx])+
  then show "0 \<le> y \<and> y \<le> 1600" using x(2) by simp
qed

lemma float64_sqrt_bounds:
  assumes "0 \<le> q" "q \<le> 1600"
  shows "0 \<le> float64 (sqrt q)" "float64 (sqrt q) \<le> 40"
proof -
  have "sqrt q \<le> sqrt (40\<^sup>2)" using assms(2) by (intro real_sqrt_le_mono) simp
  then have "0 \<le> sqrt q" "sqrt q \<le> 40" using assms(1) by simp_all
  then show "0 \<le> float64 (sqrt q)" "float64 (sqrt q) \<le> 40"
    by (rule float64_between[OF float64_zero float64_40])+
qed

lemma peak_f64_bounds:
  assumes "0 \<le> avg" "avg \<le> 40" "0 \<le> mx" "mx \<le> 40"
  shows "0 \<le> float64 (float64 (float64 (7 / 10) * avg) + float64 (float64 (3 / 10) * mx))"
        "float64 (float64 (float64 (7 / 10) * avg) + float64 (float64 (3 / 10) * mx)) \<le> 40"
proof -
  have a: "0 \<le> float64 (float64 (7 / 10) * avg)" "float64 (float64 (7 / 10) * avg) \<le> 28"
  proof -
    have "float64 (0 * avg) \<le> float64 (float64 (7 / 10) * avg)"
      by (rule float64_mono) (use assms in \<open>simp add: rounding_peak_1\<close>)
    then show "0 \<le> float64 (float64 (7 / 10) * avg)" by simp
    have "float64 (float64 (7 / 10) * avg) \<le> float64 (float64 (7 / 10) * 40)"
      by (rule float64_mono) (use assms in \<open>simp add: rounding_peak_1\<close>)
    then show "float64 (float64 (7 / 10) * avg) \<le> 28" by (simp add: rounding_peak_1 rounding_peak_3)
  qed
  have b: "0 \<le> float64 (float64 (3 / 10) * mx)" "float64 (float64 (3 / 10) * mx) \<le> 12"
  proof -
    have "float64 (0 * mx) \<le> float64 (float64 (3 / 10) * mx)"
      by (rule float64_mono) (use assms in \<open>simp add: rounding_peak_2\<close>)
    then show "0 \<le> float64 (float64 (3 / 10) * mx)" by simp
    have "float64 (float64 (3 / 10) * mx) \<le> float64 (float64 (3 / 10) * 40)"
      by (rule float64_mono) (use assms in \<open>simp add: rounding_peak_2\<close>)
    then show "float64 (float64 (3 / 10) * mx) \<le> 12" by (simp add: rounding_peak_2 rounding_peak_4)
  qed
  show "0 \<le> float64 (float64 (float64 (7 / 10) * avg) + float64 (float64 (3 / 10) * mx))"
       "float64 (float64 (float64 (7 / 10) * avg) + float64 (float64 (3 / 10) * mx)) \<le> 40"
    by (rule float64_between[OF float64_zero float64_40]; use a b in linarith)+
qed

lemma interpolate_f64_range:
  assumes "min_current c = 0" "max_current c = 40"
    and "interpolation_method c \<noteq> ''weighted_avg''"
    and "length current_slice \<le> 2 ^ 40"
  shows "\<exists>r. interpolate_current_window_f64 c current_slice = Some r \<and> 0 \<le> r \<and> r \<le> 40"
proof (cases "current_slice = []")
  case True
  then show ?thesis by (simp add: interpolate_current_window_f64_def)
next
  case False
  let ?cs = "processed_currents_f64 c current_slice"
  have ne: "?cs \<noteq> []" using False by (simp add: processed_currents_f64_def)
  have len: "length ?cs \<le> 2 ^ 40" using assms(4) by (simp add: processed_currents_f64_def)
  have b: "\<forall>x\<in>set ?cs. 0 \<le> x \<and> x \<le> 40"
    using process_current_f64_bounds[of c] assms(1,2) by (auto simp: processed_currents_f64_def)
  have avg: "0 \<le> np_mean_f64 ?cs" "np_mean_f64 ?cs \<le> 40"
    by (rule np_mean_f64_bounds[OF ne len b]; simp)+
  have sq: "squares_f64 ?cs \<noteq> []" "length (squares_f64 ?cs) \<le> 2 ^ 40"
    using ne len by (simp_all add: squares_f64_def)
  have msq: "0 \<le> np_mean_f64 (squares_f64 ?cs)" "np_mean_f64 (squares_f64 ?cs) \<le> 1600"
    by (rule np_mean_f64_bounds[OF sq squares_f64_bounds[OF b]]; simp)+
  note rms = float64_sqrt_bounds[OF msq]
  have en: "float64 (np_sum_f64 (squares_f64 ?cs) / real (length ?cs)) = np_mean_f64 (squares_f64 ?cs)"
    by (simp add: np_mean_f64_def squares_f64_def)
  obtain m where m: "np_max ?cs = Some m" "0 \<le> m" "m \<le> 40"
    using np_max_bounds[OF ne b] by blast
  note pk = peak_f64_bounds[OF avg m(2,3)]
  show ?thesis
    using False ne avg rms m pk assms(3)
    by (simp add: interpolate_current_window_f64_def Let_def en)
qed

lemma foldl_add_pos:
  assumes "\<forall>x\<in>set xs. 0 \<le> x" "0 \<le> res"
  shows "0 \<le> foldl (\<lambda>res x. float64 (res + x)) res xs"
    and "0 < res \<or> (\<exists>x\<in>set xs. 0 < x) \<Longrightarrow> 0 < foldl (\<lambda>res x. float64 (res + x)) res xs"
  using assms
proof (induction xs arbitrary: res)
  case Nil
  { case 1 then show ?case by simp }
  { case 2 then show ?case by simp }
next
  case (Cons x xs)
  { case 1
    then have "0 \<le> float64 (res + x)" by (intro float64_nonneg) simp
    with 1 show ?case by (simp add: Cons.IH(1)) }
  { case 2
    have nn: "0 \<le> float64 (res + x)" using 2 by (intro float64_nonneg) simp
    have "0 < float64 (res + x) \<or> (\<exists>x\<in>set xs. 0 < x)"
    proof (cases "0 < res + x")
      case True
      then show ?thesis by (simp add: float64_pos)
    next
      case False
      then have "\<not> 0 < res" "\<not> 0 < x" using 2 by auto
      then show ?thesis using 2(1) by auto
    qed
    then show ?case using 2 nn by (simp add: Cons.IH(2)) }
qed

lemma accumulate_nth:
  assumes "\<forall>i\<in>set is. length (f i) = length r" "j < length r"
  shows "foldl (\<lambda>r i. map2 (\<lambda>x y. float64 (x + y)) r (f i)) r is ! j
           = foldl (\<lambda>res x. float64 (res + x)) (r ! j) (map (\<lambda>i. f i ! j) is)"
  using assms by (induction "is" arbitrary: r) simp_all

lemma pairwise_sum_pos:
  assumes "\<forall>x\<in>set a. 0 \<le> x"
  shows "0 \<le> pairwise_sum a \<and> ((\<exists>x\<in>set a. 0 < x) \<longrightarrow> 0 < pairwise_sum a)"
  using assms
proof (induction "length a" arbitrary: a rule: less_induct)
  case less
  let ?n = "length a"
  let ?add = "\<lambda>res x. float64 (res + x)"
  consider "?n < 8" | "8 \<le> ?n" "?n \<le> 128" | "128 < ?n" by linarith
  then show ?case
  proof cases
    case 1
    then show ?thesis
      using foldl_add_pos[OF less.prems, of 0] by (simp add: pairwise_sum_short)
  next
    case 2
    define m where "m = ?n div 8"
    define f where "f = (\<lambda>i. take 8 (drop (8 * i) a))"
    define r where "r = foldl (\<lambda>r i. map2 ?add r (f i)) (take 8 a) [1..<m]"
    define res where "res = float64 (float64 (float64 (r ! 0 + r ! 1) + float64 (r ! 2 + r ! 3))
                            + float64 (float64 (r ! 4 + r ! 5) + float64 (r ! 6 + r ! 7)))"
    have m: "1 \<le> m" "8 * m \<le> ?n" using 2 by (simp_all add: m_def)
    have unfold: "pairwise_sum a = foldl ?add res (drop (8 * m) a)"
      using 2 by (subst pairwise_sum.simps) (simp add: Let_def res_def r_def f_def m_def)
    have blk: "\<forall>i\<in>set [1..<m]. length (f i) = length (take 8 a)"
    proof
      fix i assume "i \<in> set [1..<m]"
      then have "8 * i + 8 \<le> ?n" using m(2) by simp
      then show "length (f i) = length (take 8 a)" by (simp add: f_def)
    qed
    have fnth: "f i ! j = a ! (8 * i + j)" if "i < m" "j < 8" for i j
      using that m(2) by (simp add: f_def)
    have rj: "r ! j = foldl ?add (a ! j) (map (\<lambda>i. a ! (8 * i + j)) [1..<m])" if "j < 8" for j
    proof -
      have "r ! j = foldl ?add (take 8 a ! j) (map (\<lambda>i. f i ! j) [1..<m])"
        unfolding r_def by (rule accumulate_nth[OF blk]) (use that 2 in simp)
      also have "map (\<lambda>i. f i ! j) [1..<m] = map (\<lambda>i. a ! (8 * i + j)) [1..<m]"
        using that by (simp add: fnth)
      finally show ?thesis using that by simp
    qed
    have an: "0 \<le> a ! p" if "p < ?n" for p using less.prems that by simp
    have col: "\<forall>x\<in>set (map (\<lambda>i. a ! (8 * i + j)) [1..<m]). 0 \<le> x" if "j < 8" for j
      using that m(2) by (auto intro!: an)
    have rnn: "0 \<le> r ! j" if "j < 8" for j
      unfolding rj[OF that] by (rule foldl_add_pos(1)[OF col[OF that]]) (use that 2 in \<open>simp add: an\<close>)
    have rpos: "0 < r ! j" if "j < 8" "i < m" "0 < a ! (8 * i + j)" for i j
    proof -
      have "0 < a ! j \<or> (\<exists>x\<in>set (map (\<lambda>i. a ! (8 * i + j)) [1..<m]). 0 < x)"
      proof (cases "i = 0")
        case True
        then show ?thesis using that by simp
      next
        case False
        then have "i \<in> set [1..<m]" using that by simp
        then show ?thesis using that(3) by auto
      qed
      then show ?thesis
        unfolding rj[OF that(1)]
        by (rule foldl_add_pos(2)[OF col[OF that(1)], rotated]) (use that 2 in \<open>simp add: an\<close>)
    qed
    have nn: "0 \<le> x \<Longrightarrow> 0 \<le> y \<Longrightarrow> 0 \<le> float64 (x + y)" for x y
      by (intro float64_nonneg) simp
    have pp: "0 \<le> x \<Longrightarrow> 0 \<le> y \<Longrightarrow> 0 < x \<or> 0 < y \<Longrightarrow> 0 < float64 (x + y)" for x y
      by (intro float64_pos) linarith
    have res0: "0 \<le> res"
      unfolding res_def by (intro nn rnn) simp_all
    have respos: "0 < res" if "j < 8" "0 < r ! j" for j
    proof -
      have j: "j = 0 \<or> j = 1 \<or> j = 2 \<or> j = 3 \<or> j = 4 \<or> j = 5 \<or> j = 6 \<or> j = 7"
        using that(1) by linarith
      have r: "0 \<le> r ! 0" "0 \<le> r ! 1" "0 \<le> r ! 2" "0 \<le> r ! 3"
              "0 \<le> r ! 4" "0 \<le> r ! 5" "0 \<le> r ! 6" "0 \<le> r ! 7"
        by (rule rnn, simp)+
      note a = nn[OF r(1,2)] nn[OF r(3,4)] nn[OF r(5,6)] nn[OF r(7,8)]
      note b = nn[OF a(1,2)] nn[OF a(3,4)]
      have "0 < r ! 0 \<or> 0 < r ! 1 \<or> 0 < r ! 2 \<or> 0 < r ! 3
            \<or> 0 < r ! 4 \<or> 0 < r ! 5 \<or> 0 < r ! 6 \<or> 0 < r ! 7"
        using j that(2) by auto
      then consider "0 < r ! 0 \<or> 0 < r ! 1" | "0 < r ! 2 \<or> 0 < r ! 3"
        | "0 < r ! 4 \<or> 0 < r ! 5" | "0 < r ! 6 \<or> 0 < r ! 7" by blast
      then have "0 < float64 (float64 (r ! 0 + r ! 1) + float64 (r ! 2 + r ! 3))
                  \<or> 0 < float64 (float64 (r ! 4 + r ! 5) + float64 (r ! 6 + r ! 7))"
      proof cases
        case 1
        from pp[OF r(1,2) this] have "0 < float64 (r ! 0 + r ! 1)" .
        then show ?thesis using pp[OF a(1,2)] by blast
      next
        case 2
        from pp[OF r(3,4) this] have "0 < float64 (r ! 2 + r ! 3)" .
        then show ?thesis using pp[OF a(1,2)] by blast
      next
        case 3
        from pp[OF r(5,6) this] have "0 < float64 (r ! 4 + r ! 5)" .
        then show ?thesis using pp[OF a(3,4)] by blast
      next
        case 4
        from pp[OF r(7,8) this] have "0 < float64 (r ! 6 + r ! 7)" .
        then show ?thesis using pp[OF a(3,4)] by blast
      qed
      then show ?thesis unfolding res_def by (rule pp[OF b])
    qed
    have rest: "\<forall>x\<in>set (drop (8 * m) a). 0 \<le> x" using less.prems by (auto dest: in_set_dropD)
    have "0 \<le> pairwise_sum a" unfolding unfold by (rule foldl_add_pos(1)[OF rest res0])
    moreover have "0 < pairwise_sum a" if "\<exists>x\<in>set a. 0 < x"
    proof -
      from that obtain p where p: "p < ?n" "0 < a ! p" by (auto simp: in_set_conv_nth)
      have "0 < res \<or> (\<exists>x\<in>set (drop (8 * m) a). 0 < x)"
      proof (cases "p < 8 * m")
        case True
        have "0 < r ! (p mod 8)"
          by (rule rpos[of "p mod 8" "p div 8"]) (use True p in simp_all)
        then have "0 < res" by (rule respos[rotated]) simp
        then show ?thesis ..
      next
        case False
        then have "a ! p = drop (8 * m) a ! (p - 8 * m)" "p - 8 * m < length (drop (8 * m) a)"
          using p(1) by simp_all
        then have "a ! p \<in> set (drop (8 * m) a)" by (metis nth_mem)
        then show ?thesis using p(2) by blast
      qed
      then show ?thesis unfolding unfold by (rule foldl_add_pos(2)[OF rest res0])
    qed
    ultimately show ?thesis by blast
  next
    case 3
    define n2 where "n2 = ?n div 2 - ?n div 2 mod 8"
    have n2: "0 < n2" "n2 < ?n" using 3 by (simp_all add: n2_def)
    have unfold: "pairwise_sum a = float64 (pairwise_sum (take n2 a) + pairwise_sum (drop n2 a))"
      using 3 by (subst pairwise_sum.simps) (simp add: Let_def n2_def)
    have t: "0 \<le> pairwise_sum (take n2 a) \<and> ((\<exists>x\<in>set (take n2 a). 0 < x) \<longrightarrow> 0 < pairwise_sum (take n2 a))"
      by (rule less.hyps) (use n2 less.prems in \<open>auto dest: in_set_takeD\<close>)
    have d: "0 \<le> pairwise_sum (drop n2 a) \<and> ((\<exists>x\<in>set (drop n2 a). 0 < x) \<longrightarrow> 0 < pairwise_sum (drop n2 a))"
      by (rule less.hyps) (use n2 less.prems in \<open>auto dest: in_set_dropD\<close>)
    have "0 \<le> pairwise_sum a" unfolding unfold using t d by (intro float64_nonneg) simp
    moreover have "0 < pairwise_sum a" if "\<exists>x\<in>set a. 0 < x"
    proof -
      have "set a = set (take n2 a) \<union> set (drop n2 a)"
        by (metis append_take_drop_id set_append)
      then have "(\<exists>x\<in>set (take n2 a). 0 < x) \<or> (\<exists>x\<in>set (drop n2 a). 0 < x)"
        using that by blast
      then have "0 < pairwise_sum (take n2 a) + pairwise_sum (drop n2 a)" using t d by linarith
      then show ?thesis unfolding unfold by (rule float64_pos)
    qed
    ultimately show ?thesis by blast
  qed
qed

lemma products_nonneg:
  assumes "\<forall>x\<in>set a. 0 \<le> x" "\<forall>y\<in>set w. 0 \<le> y"
  shows "\<forall>z\<in>set (map2 (\<lambda>x y. float64 (x * y)) a w). 0 \<le> z"
proof
  fix z assume "z \<in> set (map2 (\<lambda>x y. float64 (x * y)) a w)"
  then obtain x y where xy: "(x, y) \<in> set (zip a w)" "z = float64 (x * y)" by auto
  then have "x \<in> set a" "y \<in> set w" by (auto dest: set_zip_leftD set_zip_rightD)
  then have "0 \<le> x * y" using assms by simp
  then show "0 \<le> z" unfolding xy(2) by (rule float64_nonneg)
qed

lemma weighted_f64_nonneg:
  assumes "cs \<noteq> []" "length cs \<le> 2 ^ 40" "\<forall>x\<in>set cs. 0 \<le> x"
  shows "\<exists>r. np_average_f64 cs (if np_sum_f64 cs > 0
                                   then map (\<lambda>x. float64 (x / np_sum_f64 cs)) cs
                                   else map (\<lambda>x. 1) cs) = Some r \<and> 0 \<le> r"
proof (cases "0 < pairwise_sum cs")
  case True
  let ?S = "pairwise_sum cs"
  let ?w = "map (\<lambda>x. float64 (x / ?S)) cs"
  have "\<exists>x\<in>set cs. 0 < x"
  proof (rule ccontr)
    assume "\<not> (\<exists>x\<in>set cs. 0 < x)"
    then have z: "\<forall>x\<in>set cs. 0 \<le> x \<and> x \<le> 0" using assms(3) by force
    have "0 * real (length cs) \<le> ?S \<and> ?S \<le> 0 * real (length cs)"
      by (rule pairwise_sum_bounds[where N = "length cs"]) (use z in simp_all)
    then show False using True by simp
  qed
  then obtain x where x: "x \<in> set cs" "0 < x" by blast
  have wn: "\<forall>y\<in>set ?w. 0 \<le> y" using assms(3) True by (auto intro!: float64_nonneg)
  have "float64 (x / ?S) \<in> set ?w" using x(1) by simp
  moreover have "0 < float64 (x / ?S)" using x(2) True by (intro float64_pos) simp
  ultimately have "\<exists>y\<in>set ?w. 0 < y" by blast
  then have scl: "0 < pairwise_sum ?w" using pairwise_sum_pos[OF wn] by blast
  have "0 \<le> pairwise_sum (map2 (\<lambda>x y. float64 (x * y)) cs ?w)"
    using pairwise_sum_pos[OF products_nonneg[OF assms(3) wn]] by blast
  then have "0 \<le> float64 (pairwise_sum (map2 (\<lambda>x y. float64 (x * y)) cs ?w) / pairwise_sum ?w)"
    using scl by (intro float64_nonneg) simp
  then show ?thesis using True scl by (simp add: np_average_f64_def np_sum_f64_def Let_def)
next
  case False
  let ?w = "map (\<lambda>x. 1::real) cs"
  have "1 * real (length ?w) \<le> pairwise_sum ?w \<and> pairwise_sum ?w \<le> 1 * real (length ?w)"
    by (rule pairwise_sum_bounds[where N = "2 ^ 40"]) (use assms(2) exact_multiples in auto)
  then have scl: "pairwise_sum ?w = real (length cs)" by simp
  have wn: "\<forall>y\<in>set ?w. 0 \<le> y" by simp
  have "0 \<le> pairwise_sum (map2 (\<lambda>x y. float64 (x * y)) cs ?w)"
    using pairwise_sum_pos[OF products_nonneg[OF assms(3) wn]] by blast
  then have "0 \<le> float64 (pairwise_sum (map2 (\<lambda>x y. float64 (x * y)) cs ?w) / real (length cs))"
    by (intro float64_nonneg) simp
  then show ?thesis using False scl assms(1) by (simp add: np_average_f64_def np_sum_f64_def Let_def)
qed

lemma interpolate_f64_total:
  assumes "min_current c = 0" "max_current c = 40" "length current_slice \<le> 2 ^ 40"
  shows "\<exists>r. interpolate_current_window_f64 c current_slice = Some r \<and> 0 \<le> r
             \<and> (interpolation_method c \<noteq> ''weighted_avg'' \<longrightarrow> r \<le> 40)"
proof (cases "interpolation_method c = ''weighted_avg''")
  case False
  then show ?thesis using interpolate_f64_range[OF assms(1,2) False assms(3)] by blast
next
  case True
  show ?thesis
  proof (cases "current_slice = []")
    case True
    then show ?thesis by (simp add: interpolate_current_window_f64_def)
  next
    case False
    let ?cs = "processed_currents_f64 c current_slice"
    have ne: "?cs \<noteq> []" using False by (simp add: processed_currents_f64_def)
    have len: "length ?cs \<le> 2 ^ 40" using assms(3) by (simp add: processed_currents_f64_def)
    have b: "\<forall>x\<in>set ?cs. 0 \<le> x"
      using process_current_f64_bounds[of c] assms(1,2) by (auto simp: processed_currents_f64_def)
    from weighted_f64_nonneg[OF ne len b] show ?thesis
      using False ne \<open>interpolation_method c = ''weighted_avg''\<close>
      by (simp add: interpolate_current_window_f64_def Let_def)
  qed
qed

lemma pairwise_sum_constant:
  assumes "n \<le> 2 ^ 40" "M = 1 \<or> M = 40 \<or> M = 1600"
  shows "pairwise_sum (replicate n M) = M * real n"
proof -
  have "M * real (length (replicate n M)) \<le> pairwise_sum (replicate n M)
        \<and> pairwise_sum (replicate n M) \<le> M * real (length (replicate n M))"
    by (rule pairwise_sum_bounds[where N = "2 ^ 40"]) (use assms exact_multiples in auto)
  then show ?thesis by simp
qed

lemma processed_currents_f64_method [simp]:
  "processed_currents_f64 (c\<lparr>interpolation_method := m\<rparr>) xs = processed_currents_f64 c xs"
  by (simp add: processed_currents_f64_def process_current_f64_def)

lemmas f64_defs = interpolate_current_window_f64_def processed_currents_f64_def
  process_current_f64_def np_average_f64_def squares_f64_def np_mean_f64_def np_sum_f64_def
  init_def Let_def

text \<open>
  Claim C7, as the code has it. Before the reduction every sample is processed: a negative
  raw value becomes its magnitude divided by 3, any other one becomes 0, and the result is
  clamped, so that every processed sample lies between \<^verbatim>\<open>min_current\<close> and
  \<^verbatim>\<open>max_current\<close>; the empty window gives 0. The reduction of the processed samples is
  returned as it is: nothing clamps it. In the arithmetic of the program, with the range
  of the controller (0 to 40) and a window of at most \<open>2 ^ 40\<close> samples, every method
  returns a number, which is not below \<^verbatim>\<open>min_current\<close>, and under every method but
  \<^verbatim>\<open>weighted_avg\<close> not above \<^verbatim>\<open>max_current\<close>. With the reductions in exact arithmetic
  the number lies in the range under every method, \<^verbatim>\<open>weighted_avg\<close> too, for every range
  that contains 0. The method is any string: the five methods and the default branch,
  which is RMS.
\<close>

theorem interpolated_current_in_range:
  "(min_current c \<le> max_current c \<longrightarrow>
      (\<forall>x\<in>set (processed_currents_f64 c current_slice).
          min_current c \<le> x \<and> x \<le> max_current c))
   \<and> processed_currents_f64 c current_slice =
         map (\<lambda>raw. max (min_current c)
                       (min (max_current c) (if raw < 0 then float64 (\<bar>raw\<bar> / 3) else 0)))
             current_slice
   \<and> interpolate_current_window_f64 c [] = Some 0
   \<and> (min_current c = 0 \<and> max_current c = 40 \<and> length current_slice \<le> 2 ^ 40 \<longrightarrow>
        (\<exists>r. interpolate_current_window_f64 c current_slice = Some r
             \<and> min_current c \<le> r
             \<and> (interpolation_method c \<noteq> ''weighted_avg'' \<longrightarrow> r \<le> max_current c)))
   \<and> (min_current c \<le> 0 \<and> 0 \<le> max_current c \<longrightarrow>
        (\<exists>r. interpolate_current_window c current_slice = Some r
             \<and> min_current c \<le> r \<and> r \<le> max_current c))"
proof (intro conjI impI)
  assume "min_current c \<le> max_current c"
  then show "\<forall>x\<in>set (processed_currents_f64 c current_slice).
               min_current c \<le> x \<and> x \<le> max_current c"
    using process_current_f64_bounds[of c] by (auto simp: processed_currents_f64_def)
next
  show "processed_currents_f64 c current_slice =
         map (\<lambda>raw. max (min_current c)
                       (min (max_current c) (if raw < 0 then float64 (\<bar>raw\<bar> / 3) else 0)))
             current_slice"
    by (simp add: processed_currents_f64_def process_current_f64_def Let_def)
next
  show "interpolate_current_window_f64 c [] = Some 0"
    by (simp add: interpolate_current_window_f64_def)
next
  assume h: "min_current c = 0 \<and> max_current c = 40 \<and> length current_slice \<le> 2 ^ 40"
  then have "\<exists>r. interpolate_current_window_f64 c current_slice = Some r \<and> 0 \<le> r
                 \<and> (interpolation_method c \<noteq> ''weighted_avg'' \<longrightarrow> r \<le> 40)"
    by (intro interpolate_f64_total) simp_all
  then show "\<exists>r. interpolate_current_window_f64 c current_slice = Some r
             \<and> min_current c \<le> r
             \<and> (interpolation_method c \<noteq> ''weighted_avg'' \<longrightarrow> r \<le> max_current c)"
    using h by simp
next
  assume h: "min_current c \<le> 0 \<and> 0 \<le> max_current c"
  then have lo: "min_current c \<le> 0" and hi: "0 \<le> max_current c" by simp_all
  let ?cs = "processed_currents c current_slice"
  have b: "\<forall>x\<in>set ?cs. 0 \<le> x \<and> x \<le> max_current c"
    by (rule processed_currents_bounds[OF lo hi])
  show "\<exists>r. interpolate_current_window c current_slice = Some r
              \<and> min_current c \<le> r \<and> r \<le> max_current c"
  proof (cases "current_slice = []")
    case True
    then show ?thesis using lo hi by (simp add: interpolate_current_window_def)
  next
    case False
    then have ne: "?cs \<noteq> []" by (simp add: processed_currents_def)
    have avg: "0 \<le> np_mean ?cs" "np_mean ?cs \<le> max_current c"
      using np_mean_bounds[OF ne b] by simp_all
    have "0 \<le> sqrt (np_mean (squares ?cs))"
      using rms_bounds(1)[OF ne b] .
    then have rms: "min_current c \<le> sqrt (np_mean (squares ?cs))"
        "sqrt (np_mean (squares ?cs)) \<le> max_current c"
      using rms_bounds(2)[OF ne b] lo by linarith+
    obtain m where m: "np_max ?cs = Some m" "0 \<le> m" "m \<le> max_current c"
      using np_max_bounds[OF ne b] by blast
    obtain w where w: "np_average ?cs (if np_sum ?cs > 0 then map (\<lambda>x. x / np_sum ?cs) ?cs
                            else map (\<lambda>x. 1) ?cs) = Some w" "0 \<le> w" "w \<le> max_current c"
      using weighted_bounds[OF ne b] by blast
    have pk: "0 \<le> 7 / 10 * np_mean ?cs + 3 / 10 * m"
         "7 / 10 * np_mean ?cs + 3 / 10 * m \<le> max_current c"
      using avg m(2,3) by simp_all
    show ?thesis
      using False ne avg rms m w pk lo
      by (simp add: interpolate_current_window_def Let_def energy_is_rms)
  qed
qed

lemma scenario_weighted_f64:
  "interpolate_current_window_f64 ((init lnk stp)\<lparr>interpolation_method := ''weighted_avg''\<rparr>)
     (replicate 200 (- 600)) = Some (40 + 1 / 2 ^ 47)"
  by (simp add: f64_defs pairwise_sum.simps upt_conv_Cons roundings)

text \<open>
  The method \<^verbatim>\<open>weighted_avg\<close> on a window of seven samples \<open>-600\<close>, with the range of
  the controller: every processed sample is 40, the weights \<open>40 / 280\<close> and the products
  are rounded, and the result is \<open>40 + 2 ^ -47\<close>, which Python prints as
  40.00000000000001. It is above \<^verbatim>\<open>max_current\<close>. The window of 200 samples \<open>-600\<close>
  gives the same result.
\<close>

theorem weighted_average_above_max_counterexample:
  "processed_currents_f64 (init dead_link None) [- 600, - 600, - 600, - 600, - 600, - 600, - 600]
     = [40, 40, 40, 40, 40, 40, 40]
   \<and> interpolate_current_window_f64 ((init dead_link None)\<lparr>interpolation_method := ''weighted_avg''\<rparr>)
        [- 600, - 600, - 600, - 600, - 600, - 600, - 600] = Some (40 + 1 / 2 ^ 47)
   \<and> interpolate_current_window_f64 ((init dead_link None)\<lparr>interpolation_method := ''weighted_avg''\<rparr>)
        (replicate 200 (- 600)) = Some (40 + 1 / 2 ^ 47)
   \<and> max_current ((init dead_link None)\<lparr>interpolation_method := ''weighted_avg''\<rparr>) < 40 + 1 / 2 ^ 47"
  using scenario_weighted_f64[of dead_link None]
  by (simp add: f64_defs pairwise_sum_short roundings)

text \<open>
  The theorem at the controller's own range, on a window with both signs, for the method
  \<^verbatim>\<open>average\<close>: the mean of 10, 0 and 40 is the double nearest to \<open>50 / 3\<close> in the
  arithmetic of the program, and \<open>50 / 3\<close> in exact arithmetic.
\<close>

theorem interpolated_current_in_range_witness:
  "min_current ((init dead_link None)\<lparr>interpolation_method := ''average''\<rparr>) = 0
   \<and> max_current ((init dead_link None)\<lparr>interpolation_method := ''average''\<rparr>) = 40
   \<and> length [- 30, 6, - 150 :: real] \<le> 2 ^ 40
   \<and> interpolation_method ((init dead_link None)\<lparr>interpolation_method := ''average''\<rparr>) \<noteq> ''weighted_avg''
   \<and> processed_currents_f64 ((init dead_link None)\<lparr>interpolation_method := ''average''\<rparr>) [- 30, 6, - 150]
        = [10, 0, 40]
   \<and> interpolate_current_window_f64 ((init dead_link None)\<lparr>interpolation_method := ''average''\<rparr>)
        [- 30, 6, - 150] = Some (4691249611844267 / 281474976710656)
   \<and> (0::real) \<le> 4691249611844267 / 281474976710656
   \<and> (4691249611844267 / 281474976710656 :: real) \<le> 40
   \<and> interpolate_current_window ((init dead_link None)\<lparr>interpolation_method := ''average''\<rparr>)
        [- 30, 6, - 150] = Some (50 / 3)
   \<and> (0::real) \<le> 50 / 3 \<and> (50 / 3 :: real) \<le> 40"
proof -
  let ?c = "(init dead_link None)\<lparr>interpolation_method := ''average''\<rparr>"
  let ?w = "[- 30, 6, - 150] :: real list"
  have lim: "min_current ?c = 0" "max_current ?c = 40" by (simp_all add: init_def)
  have len: "length ?w \<le> 2 ^ 40" by simp
  have meth: "interpolation_method ?c \<noteq> ''weighted_avg''" by simp
  have p: "processed_currents_f64 ?c ?w = [10, 0, 40]"
    by (simp add: f64_defs)
  have v: "interpolate_current_window_f64 ?c ?w = Some (4691249611844267 / 281474976710656)"
    by (simp add: f64_defs pairwise_sum_short roundings)
  have e: "interpolate_current_window ?c ?w = Some (50 / 3)"
    by (simp add: interpolate_current_window_def processed_currents_def process_current_def
        init_def np_mean_def)
  note T = interpolated_current_in_range[of ?c ?w]
  have "\<exists>r. interpolate_current_window_f64 ?c ?w = Some r \<and> min_current ?c \<le> r
            \<and> (interpolation_method ?c \<noteq> ''weighted_avg'' \<longrightarrow> r \<le> max_current ?c)"
    using T lim len by blast
  then have f: "(0::real) \<le> 4691249611844267 / 281474976710656"
               "(4691249611844267 / 281474976710656 :: real) \<le> 40"
    unfolding v lim using meth by auto
  have "\<exists>r. interpolate_current_window ?c ?w = Some r \<and> min_current ?c \<le> r \<and> r \<le> max_current ?c"
    using T lim by simp
  then have x: "(0::real) \<le> 50 / 3" "(50 / 3 :: real) \<le> 40"
    unfolding e lim by auto
  show ?thesis using lim len meth p v e f x by blast
qed


lemma twice_product_sum:
  "2 * x * sum_list xs \<le> (\<Sum>y\<leftarrow>xs. y * y) + real (length xs) * (x * (x::real))"
proof (induction xs)
  case Nil
  then show ?case by simp
next
  case (Cons a xs)
  have "0 \<le> (a - x) ^ 2" by simp
  then have "2 * x * a \<le> a * a + x * x" by (simp add: power2_eq_square algebra_simps)
  with Cons show ?case by (simp add: algebra_simps)
qed

lemma square_sum_le:
  "(sum_list xs) ^ 2 \<le> real (length xs) * (\<Sum>y\<leftarrow>xs. y * (y::real))"
proof (induction xs)
  case Nil
  then show ?case by simp
next
  case (Cons a xs)
  have "(a + sum_list xs) ^ 2 = a * a + 2 * a * sum_list xs + (sum_list xs) ^ 2"
    by (simp add: power2_eq_square algebra_simps)
  also have "\<dots> \<le> a * a + ((\<Sum>y\<leftarrow>xs. y * y) + real (length xs) * (a * a))
                     + real (length xs) * (\<Sum>y\<leftarrow>xs. y * y)"
    using twice_product_sum[of a xs] Cons by linarith
  finally show ?case by (simp add: algebra_simps)
qed

lemma mean_le_rms:
  assumes "xs \<noteq> []"
  shows "np_mean xs \<le> sqrt (np_mean (squares xs))"
proof -
  let ?n = "real (length xs)"
  have n: "0 < ?n" using assms by simp
  have "(np_mean xs) ^ 2 = (sum_list xs) ^ 2 / (?n * ?n)"
    by (simp add: np_mean_def power2_eq_square)
  also have "\<dots> \<le> (?n * (\<Sum>y\<leftarrow>xs. y * y)) / (?n * ?n)"
    by (rule divide_right_mono[OF square_sum_le]) simp
  also have "\<dots> = np_mean (squares xs)"
    using n by (simp add: np_mean_def squares_def power2_eq_square)
  finally show ?thesis by (rule real_le_rsqrt)
qed

lemma fold_max_replicate: "fold max (replicate n k) k = (k::real)"
  by (induction n) (simp_all del: fold_replicate)

lemma constant_reductions:
  assumes "0 < n" "0 \<le> (k::real)"
  shows "np_mean (replicate n k) = k"
    and "sqrt (np_mean (squares (replicate n k))) = k"
    and "np_max (replicate n k) = Some k"
    and "np_average (replicate n k)
           (if np_sum (replicate n k) > 0
            then map (\<lambda>x. x / np_sum (replicate n k)) (replicate n k)
            else map (\<lambda>x. 1) (replicate n k)) = Some k"
proof -
  show m: "np_mean (replicate n k) = k"
    using assms(1) by (simp add: np_mean_def sum_list_replicate)
  have "np_mean (squares (replicate n k)) = k ^ 2"
    using assms(1) by (simp add: np_mean_def squares_def sum_list_replicate)
  then show "sqrt (np_mean (squares (replicate n k))) = k"
    using assms(2) by simp
  show "np_max (replicate n k) = Some k"
    using assms(1) by (cases n) (simp_all add: fold_max_replicate del: fold_replicate)
  have ne: "replicate n k \<noteq> []" using assms(1) by simp
  show "np_average (replicate n k)
           (if np_sum (replicate n k) > 0
            then map (\<lambda>x. x / np_sum (replicate n k)) (replicate n k)
            else map (\<lambda>x. 1) (replicate n k)) = Some k"
  proof (cases "0 < k")
    case True
    then have S: "0 < sum_list (replicate n k)"
      using assms(1) by (simp add: sum_list_replicate)
    have "(\<Sum>x\<leftarrow>replicate n k. x * x) / sum_list (replicate n k) = k"
      using True assms(1) by (simp add: sum_list_replicate)
    then show ?thesis using S weighted_positive[OF S] by (simp add: np_sum_def)
  next
    case False
    then have "k = 0" using assms(2) by simp
    then show ?thesis using weighted_uniform[OF ne] m by (simp add: np_sum_def sum_list_replicate)
  qed
qed

lemma interpolate_constant:
  assumes "current_slice \<noteq> []" "0 \<le> max_current c"
    and "\<forall>x\<in>set (processed_currents c current_slice). x = k"
  shows "interpolate_current_window c current_slice = Some k"
proof -
  let ?cs = "processed_currents c current_slice"
  let ?n = "length current_slice"
  have n: "0 < ?n" using assms(1) by simp
  have cs: "?cs = replicate ?n k"
    using replicate_length_same[of ?cs k] assms(3) by (simp add: processed_currents_def)
  have "k \<in> set ?cs" using cs n by simp
  then have k: "0 \<le> k"
    using process_current_nonneg[OF assms(2)] by (auto simp: processed_currents_def)
  note r = constant_reductions[OF n k]
  have e: "sqrt (np_sum (squares (replicate ?n k)) / real ?n) = k"
    using r(2) energy_is_rms[of "replicate ?n k"] by simp
  show ?thesis
    using assms(1) n r e
    by (simp add: interpolate_current_window_def Let_def cs del: replicate_eq_replicate)
qed


lemma processed_currents_method [simp]:
  "processed_currents (c\<lparr>interpolation_method := m\<rparr>) xs = processed_currents c xs"
  by (simp add: processed_currents_def process_current_def)

lemma processed_currents_empty [simp]:
  "processed_currents c xs = [] \<longleftrightarrow> xs = []"
  by (simp add: processed_currents_def)

lemma length_processed_currents [simp]:
  "length (processed_currents c xs) = length xs"
  by (simp add: processed_currents_def)

lemma scenario_window:
  "processed_currents (init lnk stp) (replicate 200 (- 600)) = replicate 200 40"
  by (simp add: processed_currents_def process_current_def init_def)

lemma np_max_replicate: "0 < n \<Longrightarrow> np_max (replicate n k) = Some k"
  by (cases n) (simp_all add: fold_max_replicate del: fold_replicate)

lemma scenario_window_f64:
  "processed_currents_f64 (init lnk stp) (replicate 200 (- 600)) = replicate 200 40"
  by (simp add: processed_currents_f64_def process_current_f64_def init_def)

lemma scenario_f64:
  assumes "m \<noteq> ''weighted_avg''"
  shows "interpolate_current_window_f64 ((init lnk stp)\<lparr>interpolation_method := m\<rparr>)
           (replicate 200 (- 600)) = Some 40"
proof -
  have s: "pairwise_sum (replicate 200 40) = 8000"
    using pairwise_sum_constant[of 200 40] by simp
  have q: "pairwise_sum (replicate 200 1600) = 320000"
    using pairwise_sum_constant[of 200 1600] by simp
  have r: "sqrt 1600 = 40"
    using real_sqrt_abs[of 40] by simp
  have mx: "np_max (replicate 200 40) = Some 40"
    by (rule np_max_replicate) simp
  show ?thesis
    using assms
    by (simp add: interpolate_current_window_f64_def scenario_window_f64 np_mean_f64_def
        np_sum_f64_def squares_f64_def Let_def s q r mx rounding_peak_1 rounding_peak_2
        rounding_peak_3 rounding_peak_4)
qed

text \<open>
  Claim C8, as the code has it. With the reductions in exact arithmetic, the RMS method
  returns at least what the Average method returns on the processed samples of a
  non-empty window; when the processed samples all equal \<open>k\<close>, every method returns
  \<open>k\<close>; and the window of 200 samples \<open>-600\<close> gives the target 40 under every method,
  for the controller as \<^verbatim>\<open>__init__\<close> makes it (divisor 3, \<^verbatim>\<open>max_current\<close> 40). In the
  arithmetic of the program the window of 200 samples \<open>-600\<close> gives exactly 40 under the
  methods Average, RMS, Peak Aware and Energy Equivalent and under the default branch;
  the other statements hold up to rounding only.
\<close>

theorem rms_ge_average_constant_window:
  "(current_slice \<noteq> [] \<longrightarrow>
      (\<exists>a r. interpolate_current_window (c\<lparr>interpolation_method := ''average''\<rparr>) current_slice = Some a
           \<and> interpolate_current_window (c\<lparr>interpolation_method := ''rms''\<rparr>) current_slice = Some r
           \<and> a \<le> r))
   \<and> (current_slice \<noteq> [] \<and> 0 \<le> max_current c
        \<and> (\<forall>x\<in>set (processed_currents c current_slice). x = k) \<longrightarrow>
        (\<forall>m. interpolate_current_window (c\<lparr>interpolation_method := m\<rparr>) current_slice = Some k))
   \<and> (\<forall>m. interpolate_current_window ((init lnk stp)\<lparr>interpolation_method := m\<rparr>)
             (replicate 200 (- 600)) = Some 40)
   \<and> (\<forall>m. m \<noteq> ''weighted_avg'' \<longrightarrow>
          interpolate_current_window_f64 ((init lnk stp)\<lparr>interpolation_method := m\<rparr>)
             (replicate 200 (- 600)) = Some 40)"
proof (intro conjI impI allI)
  assume ne: "current_slice \<noteq> []"
  then have "processed_currents c current_slice \<noteq> []"
    by (simp add: processed_currents_def)
  from mean_le_rms[OF this] ne
  show "\<exists>a r. interpolate_current_window (c\<lparr>interpolation_method := ''average''\<rparr>) current_slice = Some a
           \<and> interpolate_current_window (c\<lparr>interpolation_method := ''rms''\<rparr>) current_slice = Some r
           \<and> a \<le> r"
    by (simp add: interpolate_current_window_def)
next
  fix m
  assume h: "current_slice \<noteq> [] \<and> 0 \<le> max_current c
        \<and> (\<forall>x\<in>set (processed_currents c current_slice). x = k)"
  show "interpolate_current_window (c\<lparr>interpolation_method := m\<rparr>) current_slice = Some k"
    by (rule interpolate_constant) (use h in simp_all)
next
  fix m
  show "interpolate_current_window ((init lnk stp)\<lparr>interpolation_method := m\<rparr>)
             (replicate 200 (- 600)) = Some 40"
    by (rule interpolate_constant) (simp_all add: scenario_window, simp add: init_def)
next
  fix m :: string
  assume "m \<noteq> ''weighted_avg''"
  then show "interpolate_current_window_f64 ((init lnk stp)\<lparr>interpolation_method := m\<rparr>)
             (replicate 200 (- 600)) = Some 40"
    by (rule scenario_f64)
qed

text \<open>
  In the arithmetic of the program: on the window of three samples \<open>-29\<close> every processed
  sample is the double nearest to \<open>29 / 3\<close>, the Average method returns that double
  (9.666666666666666) and the RMS method returns a smaller one (9.666666666666664), so that
  RMS is below Average and the methods disagree on a constant sample set. On the window of
  200 samples \<open>-0.3\<close> every processed sample is 0.09999999999999999, the Average method
  returns 0.1 and the RMS method 0.09999999999999998. On the window of 200 samples
  \<open>-600\<close> the method \<^verbatim>\<open>weighted_avg\<close> returns \<open>40 + 2 ^ -47\<close>, not 40.
\<close>

theorem rms_below_average_counterexample:
  "processed_currents_f64 (init dead_link None) [- 29, - 29, - 29]
     = [5441849549739349 / 562949953421312, 5441849549739349 / 562949953421312,
        5441849549739349 / 562949953421312]
   \<and> interpolate_current_window_f64 ((init dead_link None)\<lparr>interpolation_method := ''average''\<rparr>)
        [- 29, - 29, - 29] = Some (5441849549739349 / 562949953421312)
   \<and> interpolate_current_window_f64 ((init dead_link None)\<lparr>interpolation_method := ''rms''\<rparr>)
        [- 29, - 29, - 29] = Some (1360462387434837 / 140737488355328)
   \<and> (1360462387434837 / 140737488355328 :: real) < 5441849549739349 / 562949953421312
   \<and> processed_currents_f64 (init dead_link None) (replicate 200 (- float64 (3 / 10)))
        = replicate 200 (7205759403792793 / 72057594037927936)
   \<and> interpolate_current_window_f64 ((init dead_link None)\<lparr>interpolation_method := ''average''\<rparr>)
        (replicate 200 (- float64 (3 / 10))) = Some (3602879701896397 / 36028797018963968)
   \<and> interpolate_current_window_f64 ((init dead_link None)\<lparr>interpolation_method := ''rms''\<rparr>)
        (replicate 200 (- float64 (3 / 10))) = Some (900719925474099 / 9007199254740992)
   \<and> (900719925474099 / 9007199254740992 :: real) < 3602879701896397 / 36028797018963968
   \<and> interpolate_current_window_f64 ((init dead_link None)\<lparr>interpolation_method := ''weighted_avg''\<rparr>)
        (replicate 200 (- 600)) = Some (40 + 1 / 2 ^ 47)
   \<and> (40 + 1 / 2 ^ 47 :: real) \<noteq> 40"
proof -
  have p2: "processed_currents_f64 (init dead_link None) (replicate 200 (- float64 (3 / 10)))
        = replicate 200 (7205759403792793 / 72057594037927936)"
    by (simp add: f64_defs roundings)
  have a2: "interpolate_current_window_f64 ((init dead_link None)\<lparr>interpolation_method := ''average''\<rparr>)
        (replicate 200 (- float64 (3 / 10))) = Some (3602879701896397 / 36028797018963968)"
    by (simp add: f64_defs pairwise_sum.simps upt_conv_Cons roundings)
  have r2: "interpolate_current_window_f64 ((init dead_link None)\<lparr>interpolation_method := ''rms''\<rparr>)
        (replicate 200 (- float64 (3 / 10))) = Some (900719925474099 / 9007199254740992)"
    by (simp add: f64_defs pairwise_sum.simps upt_conv_Cons roundings)
  have p: "processed_currents_f64 (init dead_link None) [- 29, - 29, - 29]
     = [5441849549739349 / 562949953421312, 5441849549739349 / 562949953421312,
        5441849549739349 / 562949953421312]"
    by (simp add: f64_defs roundings)
  have a: "interpolate_current_window_f64 ((init dead_link None)\<lparr>interpolation_method := ''average''\<rparr>)
        [- 29, - 29, - 29] = Some (5441849549739349 / 562949953421312)"
    by (simp add: f64_defs pairwise_sum_short roundings)
  have r: "interpolate_current_window_f64 ((init dead_link None)\<lparr>interpolation_method := ''rms''\<rparr>)
        [- 29, - 29, - 29] = Some (1360462387434837 / 140737488355328)"
    by (simp add: f64_defs pairwise_sum_short roundings)
  show ?thesis using p a r p2 a2 r2 scenario_weighted_f64[of dead_link None] by simp
qed

text \<open>
  The theorem on a window with two values, on a constant window, and on the window of 200
  samples \<open>-600\<close> under the RMS method in the arithmetic of the program.
\<close>

theorem rms_ge_average_constant_window_witness:
  "[- 30, - 60] \<noteq> ([]::real list)
   \<and> interpolate_current_window ((init dead_link None)\<lparr>interpolation_method := ''average''\<rparr>) [- 30, - 60] = Some 15
   \<and> interpolate_current_window ((init dead_link None)\<lparr>interpolation_method := ''rms''\<rparr>) [- 30, - 60] = Some (sqrt 250)
   \<and> 15 \<le> sqrt 250
   \<and> [- 30, - 30] \<noteq> ([]::real list) \<and> 0 \<le> max_current (init dead_link None)
   \<and> processed_currents (init dead_link None) [- 30, - 30] = [10, 10]
   \<and> (\<forall>m. interpolate_current_window ((init dead_link None)\<lparr>interpolation_method := m\<rparr>) [- 30, - 30] = Some 10)
   \<and> ''rms'' \<noteq> ''weighted_avg''
   \<and> interpolate_current_window_f64 ((init dead_link None)\<lparr>interpolation_method := ''rms''\<rparr>)
        (replicate 200 (- 600)) = Some 40"
proof -
  let ?c = "init dead_link None"
  have a: "interpolate_current_window (?c\<lparr>interpolation_method := ''average''\<rparr>) [- 30, - 60] = Some 15"
    by (simp add: interpolate_current_window_def processed_currents_def process_current_def
        init_def np_mean_def)
  have r: "interpolate_current_window (?c\<lparr>interpolation_method := ''rms''\<rparr>) [- 30, - 60] = Some (sqrt 250)"
    by (simp add: interpolate_current_window_def processed_currents_def process_current_def
        init_def np_mean_def squares_def)
  have p: "processed_currents ?c [- 30, - 30] = [10, 10]"
    by (simp add: processed_currents_def process_current_def init_def)
  have mx: "0 \<le> max_current ?c" by (simp add: init_def)
  have "15 \<le> sqrt 250"
    using rms_ge_average_constant_window[of "[- 30, - 60]" ?c 0 dead_link None] a r
    by simp
  moreover have "\<forall>m. interpolate_current_window (?c\<lparr>interpolation_method := m\<rparr>) [- 30, - 30] = Some 10"
    using rms_ge_average_constant_window[of "[- 30, - 30]" ?c 10 dead_link None] p mx
    by simp
  moreover have "interpolate_current_window_f64 (?c\<lparr>interpolation_method := ''rms''\<rparr>)
        (replicate 200 (- 600)) = Some 40"
    using rms_ge_average_constant_window[of "[- 30, - 30]" ?c 10 dead_link None]
    by simp
  ultimately show ?thesis using a r p mx by simp
qed




section \<open>The measurement cache\<close>

lemma same_cache_refl [simp]: "same_cache s s"
  by (simp add: same_cache_def)

lemma same_cache_log_message [simp]: "same_cache s (log_message m s') = same_cache s s'"
  by (simp add: same_cache_def log_message_def)

lemma same_cache_sleep [simp]: "same_cache s (sleep d s') = same_cache s s'"
  by (simp add: same_cache_def sleep_def)

lemma same_cache_instrument_call [simp]:
  "same_cache s (snd (instrument_call cmd s')) = same_cache s s'"
  by (simp add: same_cache_def instrument_call_eq)

lemma same_cache_updates [simp]:
  "same_cache s (s'\<lparr>last_command_time := x\<rparr>) = same_cache s s'"
  "same_cache s (s'\<lparr>voltage_below_cutoff_time := y\<rparr>) = same_cache s s'"
  "same_cache s (s'\<lparr>target_current := z\<rparr>) = same_cache s s'"
  "same_cache s (s'\<lparr>csv_log := u\<rparr>) = same_cache s s'"
  "same_cache s (s'\<lparr>current_row := n\<rparr>) = same_cache s s'"
  "same_cache s (s'\<lparr>test_running := b\<rparr>) = same_cache s s'"
  "same_cache s (s'\<lparr>stop_event := b\<rparr>) = same_cache s s'"
  by (simp_all add: same_cache_def)

lemma same_cache_wait [simp]: "same_cache s (wait_command_interval s') = same_cache s s'"
  by (simp add: wait_command_interval_def Let_def)

lemma same_cache_write_attempts:
  "same_cache s s' \<Longrightarrow> same_cache s (snd (write_attempts n a c s'))"
proof (induction n arbitrary: a s')
  case 0
  then show ?case by simp
next
  case (Suc n)
  show ?case using Suc.prems
    by (auto simp add: Let_def case_prod_beta intro!: Suc.IH split: reply.splits)
qed

lemma same_cache_query_attempts:
  "same_cache s s' \<Longrightarrow> same_cache s (snd (query_attempts n a c s'))"
proof (induction n arbitrary: a s')
  case 0
  then show ?case by simp
next
  case (Suc n)
  show ?case using Suc.prems
    by (auto simp add: Let_def case_prod_beta intro!: Suc.IH split: reply.splits)
qed

lemma same_cache_safe_write [simp]:
  "same_cache s s' \<Longrightarrow> same_cache s (snd (safe_write c s'))"
  by (simp add: safe_write_def same_cache_write_attempts)

lemma same_cache_safe_query [simp]:
  "same_cache s s' \<Longrightarrow> same_cache s (snd (safe_query c s'))"
  by (simp add: safe_query_def same_cache_query_attempts)

lemma same_cache_clear [simp]:
  "same_cache s (clear_pending_errors a s') = same_cache s s'"
  by (simp add: clear_pending_errors_def case_prod_beta split: reply.splits)

lemma same_cache_verify [simp]:
  "same_cache s (snd (verify_setting v s')) = same_cache s s'"
  by (simp add: verify_setting_def Let_def case_prod_beta split: reply.splits option.splits)

lemma same_cache_set_current_attempts:
  "same_cache s s' \<Longrightarrow> same_cache s (snd (set_current_attempts n a v s'))"
proof (induction n arbitrary: a s')
  case 0
  then show ?case by simp
next
  case (Suc n)
  show ?case using Suc.prems
    by (auto simp add: Let_def case_prod_beta intro!: Suc.IH split: reply.splits)
qed

lemma same_cache_safe_set_current [simp]:
  "same_cache s s' \<Longrightarrow> same_cache s (snd (safe_set_current v s'))"
  by (simp add: safe_set_current_def same_cache_set_current_attempts)

lemma same_cache_check_voltage_cutoff [simp]:
  "same_cache s (snd (check_voltage_cutoff v s')) = same_cache s s'"
  by (simp add: check_voltage_cutoff_def Let_def split: option.splits)

lemma same_cache_update_load [simp]:
  "same_cache s s' \<Longrightarrow> same_cache s (snd (update_load v s'))"
  by (simp add: update_load_def Let_def case_prod_beta)

lemma same_cache_measure_attempts [simp]:
  "same_cache s (snd (measure_attempts c w s')) = same_cache s s'"
  by (simp add: measure_attempts_def Let_def case_prod_beta split: reply.splits option.splits)

lemma same_cache_stop_test [simp]:
  "same_cache s s' \<Longrightarrow> same_cache s (stop_test s')"
  by (simp add: stop_test_def Let_def)

lemma same_cache_operator [simp]:
  "same_cache s s' \<Longrightarrow> same_cache s (operator s')"
  by (simp add: operator_def split: option.splits)

lemma same_cache_advance [simp]:
  "same_cache s (advance s') = same_cache s s'"
  by (simp add: advance_def Let_def)


lemma measure_attempts_value:
  "fst (measure_attempts cmd what s) =
     (case parsed (snd (link s (calls s))) of
        Some v \<Rightarrow> Some v
      | None \<Rightarrow> parsed (snd (link s (calls s + 1))))"
  by (simp add: measure_attempts_def instrument_call_eq parsed_def Let_def sleep_def
      log_message_def split: reply.splits option.splits)

lemma safe_measure_cases:
  "safe_measure s =
     (if \<not> instrument s \<or> rate_limited s then (cached s, s)
      else if clock (snd (voltage_poll s)) - clock s > 5
      then (cached (snd (voltage_poll s)),
            log_message ''Measurement taking too long, using cached values'' (snd (voltage_poll s)))
      else case (fst (voltage_poll s), fst (current_poll s)) of
             (Some v, Some i) \<Rightarrow>
               if 0 \<le> v \<and> v \<le> 50 \<and> 0 \<le> i \<and> i \<le> 50
               then ((v, i), (snd (current_poll s))\<lparr>last_valid_voltage := v,
                                         last_valid_current := i,
                                         last_measurement_success_time := Some (clock (snd (current_poll s))),
                                         last_measurement_time := clock (snd (current_poll s))\<rparr>)
               else (cached (snd (current_poll s)),
                     log_message ''Invalid readings - using cached values'' (snd (current_poll s)))
           | _ \<Rightarrow> (cached (snd (current_poll s)), snd (current_poll s)))"
  by (simp add: safe_measure_def voltage_poll_def current_poll_def rate_limited_def Let_def
      case_prod_beta split: option.splits)

lemma cached_same: "same_cache s s' \<Longrightarrow> cached s' = cached s"
  by (simp add: same_cache_def cached_def)

lemma same_cache_polls [simp]:
  "same_cache s (snd (voltage_poll s))" "same_cache s (snd (current_poll s))"
  by (simp_all add: voltage_poll_def current_poll_def)

lemma safe_measure_failed:
  assumes "\<not> instrument s \<or> rate_limited s \<or> clock (snd (voltage_poll s)) - clock s > 5
      \<or> fst (voltage_poll s) = None \<or> fst (current_poll s) = None
      \<or> (\<exists>v. fst (voltage_poll s) = Some v \<and> \<not> (0 \<le> v \<and> v \<le> 50))
      \<or> (\<exists>i. fst (current_poll s) = Some i \<and> \<not> (0 \<le> i \<and> i \<le> 50))"
  shows "fst (safe_measure s) = cached s \<and> same_cache s (snd (safe_measure s))"
  using assms
  by (auto simp add: safe_measure_cases cached_same split: option.splits)

lemma safe_measure_succeeded:
  assumes "instrument s" "\<not> rate_limited s" "\<not> clock (snd (voltage_poll s)) - clock s > 5"
    "fst (voltage_poll s) = Some v" "fst (current_poll s) = Some i"
    "0 \<le> v \<and> v \<le> 50" "0 \<le> i \<and> i \<le> 50"
  shows "fst (safe_measure s) = (v, i) \<and> cached (snd (safe_measure s)) = (v, i)
       \<and> last_measurement_success_time (snd (safe_measure s)) = Some (clock (snd (safe_measure s)))"
  using assms by (simp add: safe_measure_cases cached_def)

lemma cache_inv_same: "same_cache s s' \<Longrightarrow> cache_inv s \<Longrightarrow> cache_inv s'"
  by (simp add: cache_inv_def same_cache_def cached_def)

lemma cache_inv_safe_measure: "cache_inv s \<Longrightarrow> cache_inv (snd (safe_measure s))"
proof -
  assume inv: "cache_inv s"
  let ?fail = "\<not> instrument s \<or> rate_limited s \<or> clock (snd (voltage_poll s)) - clock s > 5
      \<or> fst (voltage_poll s) = None \<or> fst (current_poll s) = None
      \<or> (\<exists>v. fst (voltage_poll s) = Some v \<and> \<not> (0 \<le> v \<and> v \<le> 50))
      \<or> (\<exists>i. fst (current_poll s) = Some i \<and> \<not> (0 \<le> i \<and> i \<le> 50))"
  show ?thesis
  proof (cases ?fail)
    case True
    then show ?thesis using safe_measure_failed[of s] inv cache_inv_same by blast
  next
    case False
    then obtain v i where "fst (voltage_poll s) = Some v" "fst (current_poll s) = Some i"
      by auto
    with False have "last_measurement_success_time (snd (safe_measure s))
        = Some (clock (snd (safe_measure s)))"
      using safe_measure_succeeded[of s v i] by auto
    then show ?thesis by (simp add: cache_inv_def)
  qed
qed

lemma cache_inv_batch: "cache_inv s \<Longrightarrow> cache_inv (snd (batch s))"
proof -
  assume inv: "cache_inv s"
  have 1: "cache_inv (snd (update_load v (s\<lparr>target_current := v\<rparr>)))"
       "cache_inv (snd (update_load v (log_message m (s\<lparr>target_current := v\<rparr>))))" for v m
    by (rule cache_inv_same[OF same_cache_update_load inv], simp)+
  have 2: "cache_inv s1 \<Longrightarrow> cache_inv (snd (check_voltage_cutoff x
        ((snd (safe_measure s1))\<lparr>csv_log := y\<rparr>)))" for s1 x y
    by (rule cache_inv_same[OF _ cache_inv_safe_measure]) simp_all
  show ?thesis
    using inv 1 2 by (simp add: batch_def Let_def case_prod_beta split: option.splits)
qed

lemma cache_inv_test_loop: "cache_inv s0 \<Longrightarrow> cache_inv (snd (test_loop s0))"
proof (induction s0 rule: test_loop.induct)
  case (1 s0)
  let ?s = "operator s0"
  have s: "cache_inv ?s"
    by (rule cache_inv_same[OF same_cache_operator[OF same_cache_refl] "1.prems"])
  show ?case
  proof (cases "\<not> (test_running ?s \<and> current_row ?s < length (test_data ?s)) \<or> stop_event ?s")
    case True
    then show ?thesis using s by (subst test_loop.simps) (auto simp: Let_def)
  next
    case False
    obtain ex s1 where b: "(if current_row ?s mod 200 = 0 then batch ?s else (None, ?s)) = (ex, s1)"
      by (cases "if current_row ?s mod 200 = 0 then batch ?s else (None, ?s)") auto
    have s1: "cache_inv s1" using b s cache_inv_batch[of ?s] by (auto split: if_splits)
    show ?thesis
    proof (cases ex)
      case None
      have "same_cache s1 (advance s1)" by simp
      then have "cache_inv (advance s1)"
        using s1 by (rule cache_inv_same)
      then have "cache_inv (snd (test_loop (advance s1)))"
        using "1.IH"[OF refl _ _ b[symmetric] refl None] False by simp
      then show ?thesis using False b None by (subst test_loop.simps) (simp add: Let_def)
    next
      case (Some e)
      then show ?thesis using False b s1 by (subst test_loop.simps) (simp add: Let_def)
    qed
  qed
qed


text \<open>
  Claim C10. A new controller caches 3.7 V and 0.0 A and has no success timestamp.
  When \<^verbatim>\<open>safe_measure\<close> returns something else than the cached pair, or changes the cache
  or its success timestamp, the poll was not rate-limited and read and parsed a voltage and
  a current that both lie in 0..50; these are then the result and the new cache, and the
  timestamp is the time of the read. When the instrument is absent, the poll is
  rate-limited or takes too long, a read raises or does not parse in both attempts, or a
  value is out of range, \<^verbatim>\<open>safe_measure\<close> returns the cached pair and leaves the cache and
  the timestamp as they are. A two-attempt read yields the first reply that parses. Writes,
  queries, setpoints and the cutoff check never touch the cache. Hence, as long as no
  success timestamp exists, the cache is 3.7 V and 0.0 A, also along the test loop, and a
  measurement that leaves no timestamp reports 3.7 V.
\<close>

theorem measurement_cache:
  "cached (init lnk stp) = (37 / 10, 0) \<and> last_measurement_success_time (init lnk stp) = None
   \<and> (fst (safe_measure s) \<noteq> cached s \<or> \<not> same_cache s (snd (safe_measure s)) \<longrightarrow>
        instrument s \<and> \<not> rate_limited s \<and> \<not> clock (snd (voltage_poll s)) - clock s > 5
        \<and> (\<exists>v i. fst (voltage_poll s) = Some v \<and> fst (current_poll s) = Some i
               \<and> 0 \<le> v \<and> v \<le> 50 \<and> 0 \<le> i \<and> i \<le> 50
               \<and> fst (safe_measure s) = (v, i) \<and> cached (snd (safe_measure s)) = (v, i)
               \<and> last_measurement_success_time (snd (safe_measure s))
                   = Some (clock (snd (safe_measure s)))))
   \<and> (\<not> instrument s \<or> rate_limited s \<or> clock (snd (voltage_poll s)) - clock s > 5
        \<or> fst (voltage_poll s) = None \<or> fst (current_poll s) = None
        \<or> (\<exists>v. fst (voltage_poll s) = Some v \<and> \<not> (0 \<le> v \<and> v \<le> 50))
        \<or> (\<exists>i. fst (current_poll s) = Some i \<and> \<not> (0 \<le> i \<and> i \<le> 50))
      \<longrightarrow> fst (safe_measure s) = cached s \<and> same_cache s (snd (safe_measure s)))
   \<and> fst (measure_attempts cmd what s) =
        (case parsed (snd (link s (calls s))) of
           Some v \<Rightarrow> Some v
         | None \<Rightarrow> parsed (snd (link s (calls s + 1))))
   \<and> same_cache s (snd (safe_write cmd s)) \<and> same_cache s (snd (safe_query cmd s))
   \<and> same_cache s (snd (safe_set_current x s)) \<and> same_cache s (snd (check_voltage_cutoff x s))
   \<and> (cache_inv s \<longrightarrow> cache_inv (snd (safe_measure s)) \<and> cache_inv (snd (test_loop s)))
   \<and> (cache_inv s \<and> last_measurement_success_time (snd (safe_measure s)) = None \<longrightarrow>
        fst (safe_measure s) = (37 / 10, 0))"
proof -
  let ?fail = "\<not> instrument s \<or> rate_limited s \<or> clock (snd (voltage_poll s)) - clock s > 5
      \<or> fst (voltage_poll s) = None \<or> fst (current_poll s) = None
      \<or> (\<exists>v. fst (voltage_poll s) = Some v \<and> \<not> (0 \<le> v \<and> v \<le> 50))
      \<or> (\<exists>i. fst (current_poll s) = Some i \<and> \<not> (0 \<le> i \<and> i \<le> 50))"
  let ?ok = "instrument s \<and> \<not> rate_limited s \<and> \<not> clock (snd (voltage_poll s)) - clock s > 5
        \<and> (\<exists>v i. fst (voltage_poll s) = Some v \<and> fst (current_poll s) = Some i
               \<and> 0 \<le> v \<and> v \<le> 50 \<and> 0 \<le> i \<and> i \<le> 50
               \<and> fst (safe_measure s) = (v, i) \<and> cached (snd (safe_measure s)) = (v, i)
               \<and> last_measurement_success_time (snd (safe_measure s))
                   = Some (clock (snd (safe_measure s))))"
  have a: "cached (init lnk stp) = (37 / 10, 0) \<and> last_measurement_success_time (init lnk stp) = None"
    by (simp add: init_def cached_def)
  have fail: "?fail \<Longrightarrow> fst (safe_measure s) = cached s \<and> same_cache s (snd (safe_measure s))"
    by (rule safe_measure_failed)
  have ok: "?ok" if "\<not> ?fail"
  proof -
    from that obtain v i where vi: "fst (voltage_poll s) = Some v" "fst (current_poll s) = Some i"
      by auto
    with that show ?thesis using safe_measure_succeeded[of s v i] by auto
  qed
  have b: "fst (safe_measure s) \<noteq> cached s \<or> \<not> same_cache s (snd (safe_measure s)) \<longrightarrow> ?ok"
    using fail ok by blast
  have c: "?fail \<longrightarrow> fst (safe_measure s) = cached s \<and> same_cache s (snd (safe_measure s))"
    using fail by blast
  have d: "same_cache s (snd (safe_write cmd s)) \<and> same_cache s (snd (safe_query cmd s))
   \<and> same_cache s (snd (safe_set_current x s)) \<and> same_cache s (snd (check_voltage_cutoff x s))"
    by simp
  have e: "cache_inv s \<longrightarrow> cache_inv (snd (safe_measure s)) \<and> cache_inv (snd (test_loop s))"
    by (simp add: cache_inv_safe_measure cache_inv_test_loop)
  have f: "cache_inv s \<and> last_measurement_success_time (snd (safe_measure s)) = None \<longrightarrow>
        fst (safe_measure s) = (37 / 10, 0)"
  proof (intro impI, elim conjE)
    assume inv: "cache_inv s" and n: "last_measurement_success_time (snd (safe_measure s)) = None"
    have "\<not> ?ok" using n by simp
    with ok have ?fail by blast
    from fail[OF this] n inv show "fst (safe_measure s) = (37 / 10, 0)"
      by (simp add: cache_inv_def same_cache_def)
  qed
  show ?thesis
    using a b c d e f measure_attempts_value[of cmd what s] by blast
qed


text \<open>The theorem at a link that answers, and at a link that raises.\<close>

theorem measurement_cache_witness:
  "fst (safe_measure ((init ok_link None)\<lparr>instrument := True, clock := 100\<rparr>)) = (35 / 10, 1)
   \<and> fst (safe_measure ((init ok_link None)\<lparr>instrument := True, clock := 100\<rparr>))
        \<noteq> cached ((init ok_link None)\<lparr>instrument := True, clock := 100\<rparr>)
   \<and> cached (snd (safe_measure ((init ok_link None)\<lparr>instrument := True, clock := 100\<rparr>)))
        = (35 / 10, 1)
   \<and> last_measurement_success_time
        (snd (safe_measure ((init ok_link None)\<lparr>instrument := True, clock := 100\<rparr>)))
        = Some (1002 / 10)
   \<and> fst (voltage_poll ((init dead_link None)\<lparr>instrument := True, clock := 100\<rparr>)) = None
   \<and> fst (safe_measure ((init dead_link None)\<lparr>instrument := True, clock := 100\<rparr>)) = (37 / 10, 0)
   \<and> last_measurement_success_time
        (snd (safe_measure ((init dead_link None)\<lparr>instrument := True, clock := 100\<rparr>))) = None
   \<and> cache_inv ((init dead_link None)\<lparr>instrument := True, clock := 100\<rparr>)
   \<and> cache_inv (snd (test_loop ((init dead_link None)\<lparr>instrument := True, clock := 100\<rparr>)))"
proof -
  let ?ok = "(init ok_link None)\<lparr>instrument := True, clock := 100\<rparr>"
  let ?bad = "(init dead_link None)\<lparr>instrument := True, clock := 100\<rparr>"
  have 1: "fst (safe_measure ?ok) = (35 / 10, 1)"
    by (simp add: safe_measure_def measure_attempts_def instrument_call_eq init_def ok_link_def)
  have 2: "fst (safe_measure ?ok) \<noteq> cached ?ok"
    unfolding 1 by (simp add: cached_def init_def)
  have 3: "fst (voltage_poll ?bad) = None"
    by (simp add: voltage_poll_def measure_attempts_value parsed_def init_def dead_link_def)
  have 4: "cache_inv ?bad" by (simp add: cache_inv_def cached_def init_def)
  have 5: "cached ?bad = (37 / 10, 0)" "last_measurement_success_time ?bad = None"
    by (simp_all add: cached_def init_def)
  have c: "clock (snd (safe_measure ?ok)) = 1002 / 10"
    by (simp add: safe_measure_def measure_attempts_def instrument_call_eq init_def ok_link_def)
  note T = measurement_cache[of ok_link None ?ok "Cmd []" "[]" 0]
  note A = T[THEN conjunct2, THEN conjunct2, THEN conjunct1, rule_format, OF disjI1, OF 2]
  from A obtain v i where vi: "fst (safe_measure ?ok) = (v, i)"
      "cached (snd (safe_measure ?ok)) = (v, i)"
      "last_measurement_success_time (snd (safe_measure ?ok)) = Some (clock (snd (safe_measure ?ok)))"
    by blast
  have ok: "cached (snd (safe_measure ?ok)) = (35 / 10, 1)"
      "last_measurement_success_time (snd (safe_measure ?ok)) = Some (1002 / 10)"
    using vi 1 c by simp_all
  note U = measurement_cache[of dead_link None ?bad "Cmd []" "[]" 0]
  note B = U[THEN conjunct2, THEN conjunct2, THEN conjunct2, THEN conjunct1, rule_format,
      OF disjI2, OF disjI2, OF disjI2, OF disjI1, OF 3]
  have bad: "fst (safe_measure ?bad) = (37 / 10, 0)"
      "last_measurement_success_time (snd (safe_measure ?bad)) = None"
    using B 5 by (simp_all add: same_cache_def)
  note E = U[THEN conjunct2, THEN conjunct2, THEN conjunct2, THEN conjunct2, THEN conjunct2,
      THEN conjunct2, THEN conjunct2, THEN conjunct2, THEN conjunct2, THEN conjunct1,
      rule_format, OF 4, THEN conjunct2]
  show ?thesis
    by (intro conjI 1 2 3 4 ok bad E)
qed

section \<open>Setting the current with verification\<close>

lemma fst_verify_setting:
  "fst (verify_setting v s) =
     (case parsed (snd (link s (calls s))) of
        None \<Rightarrow> True
      | Some r \<Rightarrow> \<bar>float64 (r - v)\<bar> \<le> tolerance v)"
  by (simp add: verify_setting_def Let_def case_prod_beta parsed_def
      split: reply.splits option.splits)

lemma set_current_attempts_Suc:
  "set_current_attempts (Suc n) a v s =
     (let s2 = clear_pending_errors a (sleep (3 / 10) s);
          s3 = snd (instrument_call (SetLevel v) s2);
          r = verify_setting v (sleep (2 / 10) s3)
      in if snd (link s (calls s2)) = Raises
         then (if a < 4
               then set_current_attempts n (a + 1) v
                      (sleep (1 * real (a + 1)) (log_message ''Current setting retry'' s3))
               else (False, log_message ''Current setting failed after 5 attempts'' s3))
         else if fst r then (True, snd r)
         else set_current_attempts n (a + 1) v (snd r))"
  by (simp add: Let_def case_prod_beta split: reply.splits)

lemma outcomes_Suc:
  "outcomes lnk v a k (Suc n) =
     (let k' = (if a > 0 then k + 1 else k)
      in if snd (lnk k') = Raises then Write_failed # outcomes lnk v (a + 1) (k' + 1) n
         else case parsed (snd (lnk (k' + 1))) of
                None \<Rightarrow> [Verify_error]
              | Some r \<Rightarrow>
                  if \<bar>float64 (r - v)\<bar> \<le> tolerance v then [Verified]
                  else Mismatch # outcomes lnk v (a + 1) (k' + 2) n)"
  by (simp add: Let_def split: reply.splits)

lemma set_current_attempts_outcomes:
  "a + n = 5 \<Longrightarrow>
   fst (set_current_attempts n a v s) \<longleftrightarrow>
     (Verified \<in> set (outcomes (link s) v a (calls s) n)
      \<or> Verify_error \<in> set (outcomes (link s) v a (calls s) n))"
proof (induction n arbitrary: a s)
  case 0
  then show ?case by simp
next
  case (Suc n)
  let ?s2 = "clear_pending_errors a (sleep (3 / 10) s)"
  let ?s3 = "snd (instrument_call (SetLevel v) ?s2)"
  let ?r = "verify_setting v (sleep (2 / 10) ?s3)"
  let ?k = "if a > 0 then calls s + 1 else calls s"
  have a: "(a + 1) + n = 5" using Suc.prems by simp
  have b: "a < 4 \<longleftrightarrow> n \<noteq> 0" using Suc.prems by auto
  have k: "calls ?s2 = ?k" by simp
  note IH = Suc.IH[OF a]
  show ?case
  proof (cases "snd (link s ?k) = Raises")
    case True
    show ?thesis
    proof (cases "a < 4")
      case True
      let ?s' = "sleep (1 * real (a + 1)) (log_message ''Current setting retry'' ?s3)"
      have c': "calls ?s' = ?k + 1" and l': "link ?s' = link s" by simp_all
      have "fst (set_current_attempts (Suc n) a v s)
          = fst (set_current_attempts n (a + 1) v ?s')"
        using True \<open>snd (link s ?k) = Raises\<close>
        by (simp only: set_current_attempts_Suc Let_def k) simp
      moreover have "outcomes (link s) v a (calls s) (Suc n)
          = Write_failed # outcomes (link s) v (a + 1) (?k + 1) n"
        using \<open>snd (link s ?k) = Raises\<close> by (simp only: outcomes_Suc Let_def) simp
      ultimately show ?thesis
        using IH[of ?s'] by (simp only: l' c') simp
    next
      case False
      then have "n = 0" using b by simp
      with False \<open>snd (link s ?k) = Raises\<close> show ?thesis
        by (simp only: set_current_attempts_Suc outcomes_Suc Let_def k) simp
    qed
  next
    case False
    have c: "calls (sleep (2 / 10) ?s3) = ?k + 1" by simp
    have l: "link (sleep (2 / 10) ?s3) = link s" by simp
    have f: "fst ?r = (case parsed (snd (link s (?k + 1))) of
        None \<Rightarrow> True | Some r \<Rightarrow> \<bar>float64 (r - v)\<bar> \<le> tolerance v)"
      by (simp only: fst_verify_setting c l)
    have c2: "calls (snd ?r) = ?k + 2" by simp
    have l2: "link (snd ?r) = link s" by simp
    show ?thesis
    proof (cases "fst ?r")
      case True
      with False f show ?thesis
        by (simp only: set_current_attempts_Suc outcomes_Suc Let_def k)
           (auto split: option.splits)
    next
      case nf: False
      with f obtain r where r: "parsed (snd (link s (?k + 1))) = Some r"
          "\<not> \<bar>float64 (r - v)\<bar> \<le> tolerance v"
        by (auto split: option.splits)
      have "fst (set_current_attempts (Suc n) a v s)
          = fst (set_current_attempts n (a + 1) v (snd ?r))"
        using False nf by (simp only: set_current_attempts_Suc Let_def k) simp
      moreover have "outcomes (link s) v a (calls s) (Suc n)
          = Mismatch # outcomes (link s) v (a + 1) (?k + 2) n"
        using False r by (simp only: outcomes_Suc Let_def) simp
      ultimately show ?thesis
        using IH[of "snd ?r"] by (simp only: l2 c2) simp
    qed
  qed
qed


lemma outcomes_length: "length (outcomes lnk v a k n) \<le> n"
proof (induction n arbitrary: a k)
  case 0
  then show ?case by simp
next
  case (Suc n)
  have "length (outcomes lnk v (a + 1) k' n) \<le> n" for k' by (rule Suc.IH)
  then show ?case
    by (auto simp only: outcomes_Suc Let_def list.size split: option.splits if_splits
        intro: le_SucI) (simp_all add: le_SucI)
qed

lemma outcomes_failure:
  "(Verified \<notin> set (outcomes lnk v a k n) \<and> Verify_error \<notin> set (outcomes lnk v a k n))
   \<longleftrightarrow> (length (outcomes lnk v a k n) = n
        \<and> set (outcomes lnk v a k n) \<subseteq> {Write_failed, Mismatch})"
proof (induction n arbitrary: a k)
  case 0
  then show ?case by simp
next
  case (Suc n)
  note IH = Suc.IH[of "a + 1"]
  show ?case
    using IH
    by (auto simp add: outcomes_Suc Let_def simp del: outcomes.simps split: option.splits)
qed

lemma setpoint_writes_simps [simp]:
  "setpoint_writes v (log_message m s) = setpoint_writes v s"
  "setpoint_writes v (sleep d s) = setpoint_writes v s"
  "setpoint_writes v (snd (instrument_call (Cmd x) s)) = setpoint_writes v s"
  "setpoint_writes v (snd (instrument_call (SetLevel v) s)) = setpoint_writes v s + 1"
  "setpoint_writes v (clear_pending_errors a s) = setpoint_writes v s"
  "setpoint_writes v (snd (verify_setting w s)) = setpoint_writes v s"
  by (simp_all add: setpoint_writes_def log_message_def sleep_def instrument_call_eq
      clear_pending_errors_def verify_setting_def Let_def case_prod_beta
      split: reply.splits option.splits)

lemma set_current_attempts_writes:
  "a + n = 5 \<Longrightarrow>
   setpoint_writes v (snd (set_current_attempts n a v s))
     = setpoint_writes v s + length (outcomes (link s) v a (calls s) n)"
proof (induction n arbitrary: a s)
  case 0
  then show ?case by simp
next
  case (Suc n)
  let ?s2 = "clear_pending_errors a (sleep (3 / 10) s)"
  let ?s3 = "snd (instrument_call (SetLevel v) ?s2)"
  let ?r = "verify_setting v (sleep (2 / 10) ?s3)"
  let ?k = "if a > 0 then calls s + 1 else calls s"
  have a: "(a + 1) + n = 5" using Suc.prems by simp
  have b: "a < 4 \<longleftrightarrow> n \<noteq> 0" using Suc.prems by auto
  have k: "calls ?s2 = ?k" by simp
  have w3: "setpoint_writes v ?s3 = setpoint_writes v s + 1" by simp
  note IH = Suc.IH[OF a]
  show ?case
  proof (cases "snd (link s ?k) = Raises")
    case True
    show ?thesis
    proof (cases "a < 4")
      case True
      let ?s' = "sleep (1 * real (a + 1)) (log_message ''Current setting retry'' ?s3)"
      have c': "calls ?s' = ?k + 1" and l': "link ?s' = link s"
        and w': "setpoint_writes v ?s' = setpoint_writes v s + 1" by simp_all
      have "snd (set_current_attempts (Suc n) a v s)
          = snd (set_current_attempts n (a + 1) v ?s')"
        using True \<open>snd (link s ?k) = Raises\<close>
        by (simp only: set_current_attempts_Suc Let_def k) simp
      moreover have "outcomes (link s) v a (calls s) (Suc n)
          = Write_failed # outcomes (link s) v (a + 1) (?k + 1) n"
        using \<open>snd (link s ?k) = Raises\<close> by (simp only: outcomes_Suc Let_def) simp
      ultimately show ?thesis
        using IH[of ?s'] by (simp only: l' c' w') simp
    next
      case False
      then have "n = 0" using b by simp
      with False \<open>snd (link s ?k) = Raises\<close> show ?thesis
        by (simp only: set_current_attempts_Suc outcomes_Suc Let_def k) simp
    qed
  next
    case False
    have c: "calls (sleep (2 / 10) ?s3) = ?k + 1" by simp
    have l: "link (sleep (2 / 10) ?s3) = link s" by simp
    have f: "fst ?r = (case parsed (snd (link s (?k + 1))) of
        None \<Rightarrow> True | Some r \<Rightarrow> \<bar>float64 (r - v)\<bar> \<le> tolerance v)"
      by (simp only: fst_verify_setting c l)
    have c2: "calls (snd ?r) = ?k + 2" by simp
    have l2: "link (snd ?r) = link s" by simp
    have w2: "setpoint_writes v (snd ?r) = setpoint_writes v s + 1" by simp
    show ?thesis
    proof (cases "fst ?r")
      case True
      have "snd (set_current_attempts (Suc n) a v s) = snd ?r"
        using False True by (simp only: set_current_attempts_Suc Let_def k) simp
      moreover have "length (outcomes (link s) v a (calls s) (Suc n)) = 1"
        using False True f by (simp only: outcomes_Suc Let_def) (auto split: option.splits)
      ultimately show ?thesis using w2 by simp
    next
      case nf: False
      with f obtain r where r: "parsed (snd (link s (?k + 1))) = Some r"
          "\<not> \<bar>float64 (r - v)\<bar> \<le> tolerance v"
        by (auto split: option.splits)
      have "snd (set_current_attempts (Suc n) a v s)
          = snd (set_current_attempts n (a + 1) v (snd ?r))"
        using False nf by (simp only: set_current_attempts_Suc Let_def k) simp
      moreover have "outcomes (link s) v a (calls s) (Suc n)
          = Mismatch # outcomes (link s) v (a + 1) (?k + 2) n"
        using False r by (simp only: outcomes_Suc Let_def) simp
      ultimately show ?thesis
        using IH[of "snd ?r"] by (simp only: l2 c2 w2) simp
    qed
  qed
qed

lemma write_attempts_sent:
  "length (sent (snd (write_attempts n a c s))) \<le> length (sent s) + n"
proof (induction n arbitrary: a s)
  case 0
  then show ?case by simp
next
  case (Suc n)
  let ?s2 = "snd (instrument_call c (wait_command_interval s))"
  let ?s' = "sleep (5 / 10 * real (a + 1)) (log_message ''Write retry'' ?s2)"
  have "length (sent (snd (write_attempts n (a + 1) c ?s'))) \<le> length (sent ?s') + n"
    by (rule Suc.IH)
  then have "length (sent (snd (write_attempts n (a + 1) c ?s'))) \<le> length (sent s) + Suc n"
    by simp
  then show ?case
    by (simp add: Let_def case_prod_beta split: reply.splits)
qed


lemma verify_setting_logged:
  "parsed (snd (link s (calls s))) = None \<Longrightarrow>
   last (console (snd (verify_setting v s))) = ''Current verification error''"
  by (simp add: verify_setting_def Let_def case_prod_beta parsed_def
      split: reply.splits option.splits)

lemma set_current_attempts_logged:
  "a + n = 5 \<Longrightarrow> Verify_error \<in> set (outcomes (link s) v a (calls s) n) \<Longrightarrow>
   last (console (snd (set_current_attempts n a v s))) = ''Current verification error''"
proof (induction n arbitrary: a s)
  case 0
  then show ?case by simp
next
  case (Suc n)
  let ?s2 = "clear_pending_errors a (sleep (3 / 10) s)"
  let ?s3 = "snd (instrument_call (SetLevel v) ?s2)"
  let ?r = "verify_setting v (sleep (2 / 10) ?s3)"
  let ?k = "if a > 0 then calls s + 1 else calls s"
  have a: "(a + 1) + n = 5" using Suc.prems by simp
  have b: "a < 4 \<longleftrightarrow> n \<noteq> 0" using Suc.prems by auto
  have k: "calls ?s2 = ?k" by simp
  note IH = Suc.IH[OF a]
  note V = Suc.prems(2)
  show ?case
  proof (cases "snd (link s ?k) = Raises")
    case True
    have o: "outcomes (link s) v a (calls s) (Suc n)
          = Write_failed # outcomes (link s) v (a + 1) (?k + 1) n"
      using True by (simp only: outcomes_Suc Let_def) simp
    show ?thesis
    proof (cases "a < 4")
      case True
      let ?s' = "sleep (1 * real (a + 1)) (log_message ''Current setting retry'' ?s3)"
      have c': "calls ?s' = ?k + 1" and l': "link ?s' = link s" by simp_all
      have "snd (set_current_attempts (Suc n) a v s)
          = snd (set_current_attempts n (a + 1) v ?s')"
        using True \<open>snd (link s ?k) = Raises\<close>
        by (simp only: set_current_attempts_Suc Let_def k) simp
      moreover have "Verify_error \<in> set (outcomes (link ?s') v (a + 1) (calls ?s') n)"
        using V o by (simp only: l' c') simp
      ultimately show ?thesis using IH[of ?s'] by simp
    next
      case False
      then have "n = 0" using b by simp
      with V o show ?thesis by simp
    qed
  next
    case False
    have c: "calls (sleep (2 / 10) ?s3) = ?k + 1" by simp
    have l: "link (sleep (2 / 10) ?s3) = link s" by simp
    have f: "fst ?r = (case parsed (snd (link s (?k + 1))) of
        None \<Rightarrow> True | Some r \<Rightarrow> \<bar>float64 (r - v)\<bar> \<le> tolerance v)"
      by (simp only: fst_verify_setting c l)
    have c2: "calls (snd ?r) = ?k + 2" by simp
    have l2: "link (snd ?r) = link s" by simp
    show ?thesis
    proof (cases "parsed (snd (link s (?k + 1)))")
      case None
      then have "fst ?r" using f by simp
      then have "snd (set_current_attempts (Suc n) a v s) = snd ?r"
        using False by (simp only: set_current_attempts_Suc Let_def k) simp
      moreover have "last (console (snd ?r)) = ''Current verification error''"
        by (rule verify_setting_logged) (simp only: c l None)
      ultimately show ?thesis by simp
    next
      case (Some r)
      show ?thesis
      proof (cases "\<bar>float64 (r - v)\<bar> \<le> tolerance v")
        case True
        then have "outcomes (link s) v a (calls s) (Suc n) = [Verified]"
          using False Some by (simp only: outcomes_Suc Let_def) simp
        with V show ?thesis by simp
      next
        case nf: False
        then have "\<not> fst ?r" using f Some by simp
        then have "snd (set_current_attempts (Suc n) a v s)
            = snd (set_current_attempts n (a + 1) v (snd ?r))"
          using False by (simp only: set_current_attempts_Suc Let_def k) simp
        moreover have "outcomes (link s) v a (calls s) (Suc n)
            = Mismatch # outcomes (link s) v (a + 1) (?k + 2) n"
          using False Some nf by (simp only: outcomes_Suc Let_def) simp
        then have "Verify_error \<in> set (outcomes (link (snd ?r)) v (a + 1) (calls (snd ?r)) n)"
          using V by (simp only: l2 c2) simp
        ultimately show ?thesis using IH[of "snd ?r"] by simp
      qed
    qed
  qed
qed

lemma safe_set_current_unconnected:
  "\<not> instrument s \<Longrightarrow> safe_set_current v s = (False, s)"
  by (simp add: safe_set_current_def)

lemma float64_one_percent: "float64 (1 / 100) = 5764607523034235 / 576460752303423488"
  by (rule rounding_tolerance_1)

lemma tolerance_bounds:
  "max (1 / 100) (\<bar>v\<bar> / 100) * (1 - 1 / 2 ^ 53) \<le> tolerance v"
  "tolerance v \<le> max (1 / 100) (\<bar>v\<bar> / 100) * (1 + 1 / 2 ^ 52)"
proof -
  let ?c = "5764607523034235 / 576460752303423488 :: real"
  have p: "\<bar>v\<bar> * ?c - \<bar>v\<bar> * ?c / 2 ^ 53 \<le> \<bar>float64 (v * ?c)\<bar>"
          "\<bar>float64 (v * ?c)\<bar> \<le> \<bar>v\<bar> * ?c + \<bar>v\<bar> * ?c / 2 ^ 53"
    using float64_abs_error[of "v * ?c"] by (simp_all add: abs_mult)
  show "max (1 / 100) (\<bar>v\<bar> / 100) * (1 - 1 / 2 ^ 53) \<le> tolerance v"
    unfolding tolerance_def float64_one_percent using p(1) by (simp add: max_def)
  show "tolerance v \<le> max (1 / 100) (\<bar>v\<bar> / 100) * (1 + 1 / 2 ^ 52)"
    unfolding tolerance_def float64_one_percent using p(2) by (simp add: max_def)
qed

lemma tolerance_test:
  "\<bar>r - v\<bar> \<le> (1 - 1 / 2 ^ 50) * max (1 / 100) (\<bar>v\<bar> / 100)
     \<Longrightarrow> \<bar>float64 (r - v)\<bar> \<le> tolerance v"
  "\<bar>float64 (r - v)\<bar> \<le> tolerance v
     \<Longrightarrow> \<bar>r - v\<bar> \<le> (1 + 1 / 2 ^ 50) * max (1 / 100) (\<bar>v\<bar> / 100)"
proof -
  let ?T = "max (1 / 100) (\<bar>v\<bar> / 100)"
  have T: "0 \<le> ?T" by simp
  note d = float64_abs_error[of "r - v"]
  note t = tolerance_bounds[of v]
  show "\<bar>float64 (r - v)\<bar> \<le> tolerance v" if "\<bar>r - v\<bar> \<le> (1 - 1 / 2 ^ 50) * ?T"
    using that d(2) t(1) T by (simp add: algebra_simps)
  show "\<bar>r - v\<bar> \<le> (1 + 1 / 2 ^ 50) * ?T" if "\<bar>float64 (r - v)\<bar> \<le> tolerance v"
    using that d(1) t(2) T by (simp add: algebra_simps)
qed

text \<open>
  The test at its edge: for the request 0 the code accepts the double nearest to 0.01,
  which is above 0.01; for the request 0.5 it rejects the double nearest to 0.51.
\<close>

lemma tolerance_edge:
  "\<bar>float64 (float64 (1 / 100) - 0)\<bar> \<le> tolerance 0"
  "1 / 100 < float64 (1 / 100)"
  "\<not> \<bar>float64 (float64 (51 / 100) - 1 / 2)\<bar> \<le> tolerance (1 / 2)"
  by (simp_all add: tolerance_def roundings)

text \<open>
  Claim C6, as the code has it. With no instrument connected \<^verbatim>\<open>safe_set_current\<close>
  returns \<^verbatim>\<open>False\<close> at once and makes no attempt. With an instrument connected it
  returns \<^verbatim>\<open>True\<close> exactly when one of its at most five attempts reads back a value that
  passes the test of the code, or has its write go through and its verification query
  raise or not parse; in the latter case the last log line is the verification error. It
  returns \<^verbatim>\<open>False\<close> exactly when all five attempts were made and each one ended in a
  failed write or in a failed test. It issues one setpoint write per attempt, at most five,
  where \<^verbatim>\<open>safe_write\<close> issues at most \<^verbatim>\<open>max_retries\<close> commands, which is 3. The test
  is \<^verbatim>\<open>abs(set_current - current_value) <= max(0.01, abs(current_value * 0.01))\<close> in
  the arithmetic of the program: it passes whenever the value read differs from the
  requested one by at most the larger of 0.01 and 1% of the request, less one part in
  \<open>2 ^ 50\<close>, and whenever it passes they differ by at most that much and one part in
  \<open>2 ^ 50\<close> more.
\<close>

theorem set_current_verified:
  "(\<not> instrument s \<longrightarrow> safe_set_current v s = (False, s))
   \<and> (instrument s \<longrightarrow>
        (fst (safe_set_current v s) \<longleftrightarrow>
            Verified \<in> set (outcomes (link s) v 0 (calls s) 5)
            \<or> Verify_error \<in> set (outcomes (link s) v 0 (calls s) 5))
        \<and> (\<not> fst (safe_set_current v s) \<longleftrightarrow>
            length (outcomes (link s) v 0 (calls s) 5) = 5
            \<and> set (outcomes (link s) v 0 (calls s) 5) \<subseteq> {Write_failed, Mismatch})
        \<and> (Verify_error \<in> set (outcomes (link s) v 0 (calls s) 5) \<longrightarrow>
            last (console (snd (safe_set_current v s))) = ''Current verification error'')
        \<and> setpoint_writes v (snd (safe_set_current v s))
            = setpoint_writes v s + length (outcomes (link s) v 0 (calls s) 5))
   \<and> length (outcomes (link s) v 0 (calls s) 5) \<le> 5
   \<and> length (sent (snd (safe_write cmd s))) \<le> length (sent s) + max_retries s
   \<and> max_retries (init lnk stp) < 5
   \<and> (\<bar>r - v\<bar> \<le> (1 - 1 / 2 ^ 50) * max (1 / 100) (\<bar>v\<bar> / 100)
        \<longrightarrow> \<bar>float64 (r - v)\<bar> \<le> tolerance v)
   \<and> (\<bar>float64 (r - v)\<bar> \<le> tolerance v
        \<longrightarrow> \<bar>r - v\<bar> \<le> (1 + 1 / 2 ^ 50) * max (1 / 100) (\<bar>v\<bar> / 100))"
proof -
  have 0: "\<not> instrument s \<longrightarrow> safe_set_current v s = (False, s)"
    by (simp add: safe_set_current_unconnected)
  have c: "instrument s \<longrightarrow>
        (fst (safe_set_current v s) \<longleftrightarrow>
            Verified \<in> set (outcomes (link s) v 0 (calls s) 5)
            \<or> Verify_error \<in> set (outcomes (link s) v 0 (calls s) 5))
        \<and> (\<not> fst (safe_set_current v s) \<longleftrightarrow>
            length (outcomes (link s) v 0 (calls s) 5) = 5
            \<and> set (outcomes (link s) v 0 (calls s) 5) \<subseteq> {Write_failed, Mismatch})
        \<and> (Verify_error \<in> set (outcomes (link s) v 0 (calls s) 5) \<longrightarrow>
            last (console (snd (safe_set_current v s))) = ''Current verification error'')
        \<and> setpoint_writes v (snd (safe_set_current v s))
            = setpoint_writes v s + length (outcomes (link s) v 0 (calls s) 5)"
  proof
    assume i: "instrument s"
    have r: "safe_set_current v s = set_current_attempts 5 0 v s"
      using i by (simp add: safe_set_current_def)
    have 1: "fst (safe_set_current v s) \<longleftrightarrow>
              Verified \<in> set (outcomes (link s) v 0 (calls s) 5)
              \<or> Verify_error \<in> set (outcomes (link s) v 0 (calls s) 5)"
      unfolding r by (rule set_current_attempts_outcomes) simp
    have 2: "\<not> fst (safe_set_current v s) \<longleftrightarrow>
              length (outcomes (link s) v 0 (calls s) 5) = 5
              \<and> set (outcomes (link s) v 0 (calls s) 5) \<subseteq> {Write_failed, Mismatch}"
      unfolding 1 using outcomes_failure[of "link s" v 0 "calls s" 5] by blast
    have 3: "Verify_error \<in> set (outcomes (link s) v 0 (calls s) 5) \<longrightarrow>
              last (console (snd (safe_set_current v s))) = ''Current verification error''"
      unfolding r using set_current_attempts_logged[of 0 5 s v] by simp
    have 4: "setpoint_writes v (snd (safe_set_current v s))
              = setpoint_writes v s + length (outcomes (link s) v 0 (calls s) 5)"
      unfolding r by (rule set_current_attempts_writes) simp
    show "(fst (safe_set_current v s) \<longleftrightarrow>
            Verified \<in> set (outcomes (link s) v 0 (calls s) 5)
            \<or> Verify_error \<in> set (outcomes (link s) v 0 (calls s) 5))
        \<and> (\<not> fst (safe_set_current v s) \<longleftrightarrow>
            length (outcomes (link s) v 0 (calls s) 5) = 5
            \<and> set (outcomes (link s) v 0 (calls s) 5) \<subseteq> {Write_failed, Mismatch})
        \<and> (Verify_error \<in> set (outcomes (link s) v 0 (calls s) 5) \<longrightarrow>
            last (console (snd (safe_set_current v s))) = ''Current verification error'')
        \<and> setpoint_writes v (snd (safe_set_current v s))
            = setpoint_writes v s + length (outcomes (link s) v 0 (calls s) 5)"
      using 1 2 3 4 by blast
  qed
  have 5: "length (sent (snd (safe_write cmd s))) \<le> length (sent s) + max_retries s"
  proof (cases "instrument s")
    case True
    then have w: "safe_write cmd s = write_attempts (max_retries s) 0 cmd s"
      by (simp add: safe_write_def)
    show ?thesis unfolding w by (rule write_attempts_sent)
  next
    case False
    then show ?thesis by (simp add: safe_write_def)
  qed
  have 6: "max_retries (init lnk stp) < 5" by (simp add: init_def)
  show ?thesis
    using 0 c 5 6 outcomes_length[of "link s" v 0 "calls s" 5]
      tolerance_test(1)[of r v] tolerance_test(2)[of r v]
    by blast
qed

text \<open>
  With no instrument connected the method returns \<^verbatim>\<open>False\<close> and nothing is sent: a
  failure with no attempt made. And with an instrument that answers every readback with
  0.51 the request for 0.5 fails after five attempts, each a mismatch, although 0.51 is
  within 0.01 of 0.5: \<^verbatim>\<open>float\<close> reads the reply as the double nearest to 0.51, which
  is 0.010000000000000009 away from 0.5, and the tolerance is the double nearest to 0.01.
\<close>

theorem set_current_unconnected_counterexample:
  "safe_set_current (1 / 2) (init edge_link None) = (False, init edge_link None)
   \<and> sent (snd (safe_set_current (1 / 2) (init edge_link None))) = []
   \<and> \<bar>51 / 100 - 1 / 2 :: real\<bar> \<le> max (1 / 100) (\<bar>1 / 2\<bar> / 100)
   \<and> outcomes edge_link (1 / 2) 0 0 5 = [Mismatch, Mismatch, Mismatch, Mismatch, Mismatch]
   \<and> \<not> fst (safe_set_current (1 / 2) ((init edge_link None)\<lparr>instrument := True\<rparr>))"
proof -
  let ?s = "(init edge_link None)\<lparr>instrument := True\<rparr>"
  have u: "safe_set_current (1 / 2) (init edge_link None) = (False, init edge_link None)"
    by (rule safe_set_current_unconnected) (simp add: init_def)
  have n: "sent (init edge_link None) = []" by (simp add: init_def)
  have o: "outcomes edge_link (1 / 2) 0 0 5 = [Mismatch, Mismatch, Mismatch, Mismatch, Mismatch]"
    by (simp add: eval_nat_numeral edge_link_def parsed_def tolerance_def roundings)
  have l: "link ?s = edge_link" "calls ?s = 0" by (simp_all add: init_def)
  have "fst (set_current_attempts 5 0 (1 / 2) ?s) \<longleftrightarrow>
          Verified \<in> set (outcomes (link ?s) (1 / 2) 0 (calls ?s) 5)
          \<or> Verify_error \<in> set (outcomes (link ?s) (1 / 2) 0 (calls ?s) 5)"
    by (rule set_current_attempts_outcomes) simp
  then have "\<not> fst (set_current_attempts 5 0 (1 / 2) ?s)"
    unfolding l o by simp
  then have f: "\<not> fst (safe_set_current (1 / 2) ?s)"
    by (simp add: safe_set_current_def)
  show ?thesis using u n o f by simp
qed

text \<open>
  The theorem where the write fails in the first two attempts and succeeds in the third,
  with the readback 1.000 for the request 1.000: success, after three setpoint writes.
  And with no instrument connected.
\<close>

theorem set_current_verified_witness:
  "instrument ((init flaky_link None)\<lparr>instrument := True\<rparr>)
   \<and> outcomes flaky_link 1 0 0 5 = [Write_failed, Write_failed, Verified]
   \<and> fst (safe_set_current 1 ((init flaky_link None)\<lparr>instrument := True\<rparr>))
   \<and> setpoint_writes 1 (snd (safe_set_current 1 ((init flaky_link None)\<lparr>instrument := True\<rparr>))) = 3
   \<and> \<bar>1 - 1 :: real\<bar> \<le> (1 - 1 / 2 ^ 50) * max (1 / 100) (\<bar>1\<bar> / 100)
   \<and> \<bar>float64 (1 - 1)\<bar> \<le> tolerance 1
   \<and> \<not> instrument (init flaky_link None)
   \<and> safe_set_current 1 (init flaky_link None) = (False, init flaky_link None)"
proof -
  let ?s = "(init flaky_link None)\<lparr>instrument := True\<rparr>"
  have i: "instrument ?s" by simp
  have l: "link ?s = flaky_link" "calls ?s = 0" "setpoint_writes 1 ?s = 0"
    by (simp_all add: init_def setpoint_writes_def)
  have o: "outcomes flaky_link 1 0 0 5 = [Write_failed, Write_failed, Verified]"
    by (simp add: eval_nat_numeral flaky_link_def parsed_def)
  have h: "\<bar>1 - 1 :: real\<bar> \<le> (1 - 1 / 2 ^ 50) * max (1 / 100) (\<bar>1\<bar> / 100)" by simp
  note T = set_current_verified[of ?s 1 "Cmd []" flaky_link None 1, unfolded l o]
  have "fst (safe_set_current 1 ?s)" using T i by simp
  moreover have "setpoint_writes 1 (snd (safe_set_current 1 ?s)) = 3" using T i by simp
  moreover have "\<bar>float64 (1 - 1)\<bar> \<le> tolerance 1" using T h by blast
  moreover have n: "\<not> instrument (init flaky_link None)" by (simp add: init_def)
  moreover have "safe_set_current 1 (init flaky_link None) = (False, init flaky_link None)"
    using set_current_verified[of "init flaky_link None" 1 "Cmd []" flaky_link None 1] n by blast
  ultimately show ?thesis using i o h by blast
qed

section \<open>The spacing between commands\<close>

lemma last_command_time_simps [simp]:
  "last_command_time (log_message m s) = last_command_time s"
  "last_command_time (sleep d s) = last_command_time s"
  "last_command_time (wait_command_interval s) = last_command_time s"
  "last_command_time (snd (instrument_call c s)) = last_command_time s"
  "last_command_time (clear_pending_errors a s) = last_command_time s"
  "last_command_time (snd (verify_setting v s)) = last_command_time s"
  "last_command_time (snd (measure_attempts c w s)) = last_command_time s"
  by (simp_all add: log_message_def sleep_def instrument_call_eq wait_command_interval_def
      clear_pending_errors_def verify_setting_def measure_attempts_def Let_def case_prod_beta
      split: reply.splits option.splits)

lemma command_interval_simps [simp]:
  "command_interval (log_message m s) = command_interval s"
  "command_interval (sleep d s) = command_interval s"
  "command_interval (wait_command_interval s) = command_interval s"
  "command_interval (snd (instrument_call c s)) = command_interval s"
  using frame_log_message[of s m] frame_sleep[of s d] frame_instrument_call[of s c]
    frame_wait[of s s]
  by (simp_all add: frame_def)

lemma max_retries_simps [simp]:
  "max_retries (log_message m s) = max_retries s"
  "max_retries (sleep d s) = max_retries s"
  "max_retries (wait_command_interval s) = max_retries s"
  "max_retries (snd (instrument_call c s)) = max_retries s"
  using frame_log_message[of s m] frame_sleep[of s d] frame_instrument_call[of s c]
    frame_wait[of s s]
  by (simp_all add: frame_def)

lemma clock_wait:
  "last_command_time s + command_interval s \<le> clock (wait_command_interval s)"
  by (simp add: wait_command_interval_def Let_def sleep_def)

lemma write_attempts_gated:
  "\<exists>xs. sent (snd (write_attempts n a cmd s)) = sent s @ xs \<and> gated s cmd xs
      \<and> (if fst (write_attempts n a cmd s)
          then last_command_time (snd (write_attempts n a cmd s))
                 = clock (snd (write_attempts n a cmd s))
          else last_command_time (snd (write_attempts n a cmd s)) = last_command_time s)"
proof (induction n arbitrary: a s)
  case 0
  then show ?case by (simp add: gated_def)
next
  case (Suc n)
  let ?s1 = "wait_command_interval s"
  let ?s2 = "snd (instrument_call cmd ?s1)"
  let ?s' = "sleep (5 / 10 * real (a + 1)) (log_message ''Write retry'' ?s2)"
  have s2: "sent ?s2 = sent s @ [(clock ?s1, cmd)]" by simp
  have g: "gated s cmd [(clock ?s1, cmd)]" by (simp add: gated_def clock_wait)
  show ?case
  proof (cases "snd (link s (calls s)) = Raises \<and> a < max_retries s - 1")
    case True
    then have eq: "write_attempts (Suc n) a cmd s = write_attempts n (a + 1) cmd ?s'"
      by (simp add: Let_def case_prod_beta)
    from Suc.IH[of "a + 1" ?s'] obtain xs where
      xs: "sent (snd (write_attempts n (a + 1) cmd ?s')) = sent ?s' @ xs" "gated ?s' cmd xs"
        "if fst (write_attempts n (a + 1) cmd ?s')
          then last_command_time (snd (write_attempts n (a + 1) cmd ?s'))
                 = clock (snd (write_attempts n (a + 1) cmd ?s'))
          else last_command_time (snd (write_attempts n (a + 1) cmd ?s')) = last_command_time ?s'"
      by blast
    have "gated s cmd ((clock ?s1, cmd) # xs)"
      using xs(2) g by (simp add: gated_def)
    moreover have "sent (snd (write_attempts (Suc n) a cmd s)) = sent s @ ((clock ?s1, cmd) # xs)"
      using xs(1) by (simp only: eq) simp
    ultimately show ?thesis using xs(3) by (simp only: eq) auto
  next
    case False
    then show ?thesis using g
      by (auto simp add: Let_def case_prod_beta split: reply.splits)
  qed
qed


lemma query_attempts_gated:
  "\<exists>xs. sent (snd (query_attempts n a cmd s)) = sent s @ xs \<and> gated s cmd xs
      \<and> (if fst (query_attempts n a cmd s) \<noteq> None
          then last_command_time (snd (query_attempts n a cmd s))
                 = clock (snd (query_attempts n a cmd s))
          else last_command_time (snd (query_attempts n a cmd s)) = last_command_time s)"
proof (induction n arbitrary: a s)
  case 0
  then show ?case by (simp add: gated_def)
next
  case (Suc n)
  let ?s1 = "wait_command_interval s"
  let ?s2 = "snd (instrument_call cmd ?s1)"
  let ?s' = "sleep (5 / 10 * real (a + 1)) (log_message ''Query retry'' ?s2)"
  have s2: "sent ?s2 = sent s @ [(clock ?s1, cmd)]" by simp
  have g: "gated s cmd [(clock ?s1, cmd)]" by (simp add: gated_def clock_wait)
  show ?case
  proof (cases "snd (link s (calls s)) = Raises \<and> a < max_retries s - 1")
    case True
    then have eq: "query_attempts (Suc n) a cmd s = query_attempts n (a + 1) cmd ?s'"
      by (simp add: Let_def case_prod_beta)
    from Suc.IH[of "a + 1" ?s'] obtain xs where
      xs: "sent (snd (query_attempts n (a + 1) cmd ?s')) = sent ?s' @ xs" "gated ?s' cmd xs"
        "if fst (query_attempts n (a + 1) cmd ?s') \<noteq> None
          then last_command_time (snd (query_attempts n (a + 1) cmd ?s'))
                 = clock (snd (query_attempts n (a + 1) cmd ?s'))
          else last_command_time (snd (query_attempts n (a + 1) cmd ?s')) = last_command_time ?s'"
      by blast
    have "gated s cmd ((clock ?s1, cmd) # xs)"
      using xs(2) g by (simp add: gated_def)
    moreover have "sent (snd (query_attempts (Suc n) a cmd s)) = sent s @ ((clock ?s1, cmd) # xs)"
      using xs(1) by (simp only: eq) simp
    ultimately show ?thesis using xs(3) by (simp only: eq) auto
  next
    case False
    then show ?thesis using g
      by (auto simp add: Let_def case_prod_beta split: reply.splits)
  qed
qed

lemma last_command_time_set_current_attempts:
  "last_command_time (snd (set_current_attempts n a v s)) = last_command_time s"
proof (induction n arbitrary: a s)
  case 0
  then show ?case by simp
next
  case (Suc n)
  show ?case
    by (simp add: Let_def case_prod_beta Suc.IH split: reply.splits)
qed

lemma last_command_time_safe_set_current:
  "last_command_time (snd (safe_set_current v s)) = last_command_time s"
  by (simp add: safe_set_current_def last_command_time_set_current_attempts)

lemma last_command_time_safe_measure:
  "last_command_time (snd (safe_measure s)) = last_command_time s"
  by (simp add: safe_measure_def Let_def case_prod_beta split: option.splits)

text \<open>
  Claim C5, as amended. Every command that \<^verbatim>\<open>safe_write\<close> or \<^verbatim>\<open>safe_query\<close> issues is
  issued only once \<^verbatim>\<open>command_interval\<close> has passed since \<^verbatim>\<open>last_command_time\<close>, and when
  the call to the instrument returns, the time is recorded as \<^verbatim>\<open>last_command_time\<close>; when
  every attempt raises, \<^verbatim>\<open>last_command_time\<close> stays. \<^verbatim>\<open>safe_measure\<close> and
  \<^verbatim>\<open>safe_set_current\<close> call the instrument directly: they never change
  \<^verbatim>\<open>last_command_time\<close> (and never read it).
\<close>

theorem command_spacing_gate:
  "(\<exists>xs. sent (snd (safe_write cmd s)) = sent s @ xs \<and> gated s cmd xs)
   \<and> (fst (safe_write cmd s) \<longrightarrow>
        last_command_time (snd (safe_write cmd s)) = clock (snd (safe_write cmd s)))
   \<and> (\<not> fst (safe_write cmd s) \<longrightarrow>
        last_command_time (snd (safe_write cmd s)) = last_command_time s)
   \<and> (\<exists>xs. sent (snd (safe_query cmd s)) = sent s @ xs \<and> gated s cmd xs)
   \<and> (fst (safe_query cmd s) \<noteq> None \<longrightarrow>
        last_command_time (snd (safe_query cmd s)) = clock (snd (safe_query cmd s)))
   \<and> (fst (safe_query cmd s) = None \<longrightarrow>
        last_command_time (snd (safe_query cmd s)) = last_command_time s)
   \<and> last_command_time (snd (safe_measure s)) = last_command_time s
   \<and> last_command_time (snd (safe_set_current v s)) = last_command_time s"
proof -
  have w: "(\<exists>xs. sent (snd (safe_write cmd s)) = sent s @ xs \<and> gated s cmd xs)
   \<and> (fst (safe_write cmd s) \<longrightarrow>
        last_command_time (snd (safe_write cmd s)) = clock (snd (safe_write cmd s)))
   \<and> (\<not> fst (safe_write cmd s) \<longrightarrow>
        last_command_time (snd (safe_write cmd s)) = last_command_time s)"
  proof (cases "instrument s")
    case True
    then show ?thesis
      using write_attempts_gated[of "max_retries s" 0 cmd s]
      by (simp only: safe_write_def) (auto split: if_splits)
  next
    case False
    then show ?thesis by (simp add: safe_write_def gated_def)
  qed
  have q: "(\<exists>xs. sent (snd (safe_query cmd s)) = sent s @ xs \<and> gated s cmd xs)
   \<and> (fst (safe_query cmd s) \<noteq> None \<longrightarrow>
        last_command_time (snd (safe_query cmd s)) = clock (snd (safe_query cmd s)))
   \<and> (fst (safe_query cmd s) = None \<longrightarrow>
        last_command_time (snd (safe_query cmd s)) = last_command_time s)"
  proof (cases "instrument s")
    case True
    then show ?thesis
      using query_attempts_gated[of "max_retries s" 0 cmd s]
      by (simp only: safe_query_def) (auto split: if_splits)
  next
    case False
    then show ?thesis by (simp add: safe_query_def gated_def)
  qed
  show ?thesis
    using w q last_command_time_safe_measure[of s] last_command_time_safe_set_current[of v s]
    by blast
qed

text \<open>
  Claim C5 as stated fails for the measurement polls: on a link that answers after 0.1 s,
  \<^verbatim>\<open>safe_measure\<close> issues the current query 0.1 s after the voltage query, less than the
  \<^verbatim>\<open>command_interval\<close> of 0.3 s, and \<^verbatim>\<open>last_command_time\<close> still has its initial value 0
  afterwards.
\<close>

theorem command_spacing_counterexample:
  "sent (snd (safe_measure ((init ok_link None)\<lparr>instrument := True, clock := 100\<rparr>)))
     = [(100, Cmd '':MEAS:VOLT?''), (1001 / 10, Cmd '':MEAS:CURR?'')]
   \<and> 1001 / 10 - 100 < command_interval ((init ok_link None)\<lparr>instrument := True, clock := 100\<rparr>)
   \<and> last_command_time (snd (safe_measure ((init ok_link None)\<lparr>instrument := True, clock := 100\<rparr>)))
     = 0"
  by (simp add: safe_measure_def measure_attempts_def instrument_call_eq init_def ok_link_def)

text \<open>
  The amended theorem for a write 0.1 s after the previous command: it is issued 0.2 s
  later and recorded when it returns.
\<close>

theorem command_spacing_gate_witness:
  "fst (safe_write (Cmd '':SOUR:INP ON'')
          ((init ok_link None)\<lparr>instrument := True, clock := 100, last_command_time := 999 / 10\<rparr>))
   \<and> sent (snd (safe_write (Cmd '':SOUR:INP ON'')
          ((init ok_link None)\<lparr>instrument := True, clock := 100, last_command_time := 999 / 10\<rparr>)))
       = [(1002 / 10, Cmd '':SOUR:INP ON'')]
   \<and> last_command_time (snd (safe_write (Cmd '':SOUR:INP ON'')
          ((init ok_link None)\<lparr>instrument := True, clock := 100, last_command_time := 999 / 10\<rparr>)))
       = 1003 / 10"
proof -
  let ?s = "(init ok_link None)\<lparr>instrument := True, clock := 100, last_command_time := 999 / 10\<rparr>"
  let ?r = "safe_write (Cmd '':SOUR:INP ON'') ?s"
  have f: "fst ?r"
    by (simp add: safe_write_def eval_nat_numeral wait_command_interval_def Let_def sleep_def
        instrument_call_eq init_def ok_link_def)
  have c: "clock (snd ?r) = 1003 / 10"
    by (simp add: safe_write_def eval_nat_numeral wait_command_interval_def Let_def sleep_def
        instrument_call_eq init_def ok_link_def)
  have x: "sent (snd ?r) = [(1002 / 10, Cmd '':SOUR:INP ON'')]"
    by (simp add: safe_write_def eval_nat_numeral wait_command_interval_def Let_def sleep_def
        instrument_call_eq init_def ok_link_def)
  note T = command_spacing_gate[of "Cmd '':SOUR:INP ON''" ?s 0]
  have "last_command_time (snd ?r) = 1003 / 10"
    using T[THEN conjunct2, THEN conjunct1, rule_format, OF f] c by simp
  then show ?thesis using f x by blast
qed

section \<open>The safety monitor\<close>

lemma evaluate_fresh_below:
  assumes "fresh s r" "below s r"
  shows "voltage_below_cutoff_time s = None \<Longrightarrow>
           monitor_state (evaluate s r) = BELOW_PENDING (moment r)"
    and "voltage_below_cutoff_time s = Some since \<Longrightarrow> voltage_cutoff_buffer s \<le> moment r - since \<Longrightarrow>
           monitor_state (evaluate s r) = TRIPPED"
    and "voltage_below_cutoff_time s = Some since \<Longrightarrow> \<not> voltage_cutoff_buffer s \<le> moment r - since \<Longrightarrow>
           monitor_state (evaluate s r) = BELOW_PENDING since"
  using assms
  by (auto simp add: evaluate_def check_voltage_cutoff_def measurement_age_def fresh_def below_def
      monitor_state_def log_message_def Let_def split: option.splits)

lemma evaluate_fresh_above:
  assumes "fresh s r" "\<not> below s r"
  shows "monitor_state (evaluate s r) = OK"
  using assms
  by (auto simp add: evaluate_def check_voltage_cutoff_def measurement_age_def fresh_def below_def
      monitor_state_def log_message_def Let_def split: option.splits)

lemma evaluate_stale:
  assumes "\<not> fresh s r"
  shows "success r \<noteq> None \<Longrightarrow> monitor_state (evaluate s r) = OK"
    and "success r = None \<Longrightarrow> monitor_state (evaluate s r) = monitor_state (False, s)"
  using assms
  by (auto simp add: evaluate_def check_voltage_cutoff_def measurement_age_def fresh_def below_def
      monitor_state_def log_message_def Let_def split: option.splits)

lemma same_limits_evaluate: "same_limits s (snd (evaluate s r))"
  by (auto simp add: evaluate_def check_voltage_cutoff_def measurement_age_def
      same_limits_def log_message_def Let_def split: option.splits)

lemma same_limits_fresh: "same_limits s s' \<Longrightarrow> fresh s' = fresh s"
  by (simp add: same_limits_def fresh_def fun_eq_iff split: option.splits)

lemma same_limits_below: "same_limits s s' \<Longrightarrow> below s' = below s"
  by (simp add: same_limits_def below_def fun_eq_iff)

lemma same_limits_trans: "same_limits c s \<Longrightarrow> same_limits s s' \<Longrightarrow> same_limits c s'"
  by (simp add: same_limits_def)

lemma monitor_state_simps:
  "monitor_state x = TRIPPED \<longleftrightarrow> fst x"
  "monitor_state x = OK \<longleftrightarrow> \<not> fst x \<and> voltage_below_cutoff_time (snd x) = None"
  "monitor_state x = BELOW_PENDING t \<longleftrightarrow> \<not> fst x \<and> voltage_below_cutoff_time (snd x) = Some t"
  by (auto simp add: monitor_state_def split: option.splits)

lemma streak_reaches_mono:
  "since \<le> since' \<Longrightarrow> streak_reaches c since' rs \<Longrightarrow> streak_reaches c since rs"
  by (induction rs) auto

lemma timestamps_stay_all:
  "list_all (\<lambda>x. success x \<noteq> None) rs \<Longrightarrow> timestamps_stay rs"
  by (induction rs) auto

lemma evaluate_all_Cons:
  "evaluate_all s (r # rs) =
     (if fst (evaluate s r) then evaluate s r else evaluate_all (snd (evaluate s r)) rs)"
  by (cases "evaluate s r") auto

lemma tripped_iff_streak:
  assumes "same_limits c s" "sorted (map moment rs)"
  shows "(voltage_below_cutoff_time s = None \<longrightarrow> timestamps_stay rs \<longrightarrow>
            (fst (evaluate_all s rs) \<longleftrightarrow> has_streak c rs))
       \<and> (\<forall>since. voltage_below_cutoff_time s = Some since \<longrightarrow>
            list_all (\<lambda>r. success r \<noteq> None \<and> since \<le> moment r) rs \<longrightarrow>
            (fst (evaluate_all s rs) \<longleftrightarrow> streak_reaches c since rs \<or> has_streak c rs))"
  using assms
proof (induction rs arbitrary: s)
  case Nil
  then show ?case by simp
next
  case (Cons r rs)
  let ?e = "evaluate s r"
  have lim: "same_limits c (snd ?e)"
    by (rule same_limits_trans[OF Cons.prems(1) same_limits_evaluate])
  have srt: "sorted (map moment rs)" and le: "list_all (\<lambda>x. moment r \<le> moment x) rs"
    using Cons.prems(2) by (auto simp: list_all_iff)
  note IH = Cons.IH[OF lim srt]
  have f: "fresh s r = fresh c r" "below s r = below c r"
      "voltage_cutoff_buffer s = voltage_cutoff_buffer c"
    using Cons.prems(1) same_limits_fresh[of c s] same_limits_below[of c s]
    by (simp_all add: same_limits_def)
  show ?case
  proof (intro conjI impI allI)
    assume ok: "voltage_below_cutoff_time s = None" and ts: "timestamps_stay (r # rs)"
    show "fst (evaluate_all s (r # rs)) \<longleftrightarrow> has_streak c (r # rs)"
    proof (cases "fresh_below c r")
      case True
      then have "monitor_state ?e = BELOW_PENDING (moment r)"
        using evaluate_fresh_below(1)[of s r] ok f by (simp add: fresh_below_def)
      then have e: "\<not> fst ?e" "voltage_below_cutoff_time (snd ?e) = Some (moment r)"
        by (simp_all add: monitor_state_simps)
      have "success r \<noteq> None"
        using True by (auto simp: fresh_below_def fresh_def split: option.splits)
      then have "list_all (\<lambda>x. success x \<noteq> None \<and> moment r \<le> moment x) rs"
        using ts le by (simp add: list_all_iff)
      with IH e have "fst (evaluate_all (snd ?e) rs)
          \<longleftrightarrow> streak_reaches c (moment r) rs \<or> has_streak c rs"
        by blast
      with e True show ?thesis by (simp add: evaluate_all_Cons del: evaluate_all.simps)
    next
      case False
      have "monitor_state ?e = OK"
      proof (cases "fresh s r")
        case True
        with False f have "\<not> below s r" by (simp add: fresh_below_def)
        with True show ?thesis by (rule evaluate_fresh_above)
      next
        case nf: False
        show ?thesis
        proof (cases "success r = None")
          case True
          with nf ok show ?thesis
            using evaluate_stale(2)[of s r] by (simp add: monitor_state_def)
        next
          case False
          with nf show ?thesis using evaluate_stale(1)[of s r] by simp
        qed
      qed
      then have e: "\<not> fst ?e" "voltage_below_cutoff_time (snd ?e) = None"
        by (simp_all add: monitor_state_simps)
      have "timestamps_stay rs" using ts by simp
      with IH e have "fst (evaluate_all (snd ?e) rs) \<longleftrightarrow> has_streak c rs" by blast
      with e False show ?thesis by (simp add: evaluate_all_Cons del: evaluate_all.simps)
    qed
  next
    fix since
    assume p: "voltage_below_cutoff_time s = Some since"
      and all: "list_all (\<lambda>r. success r \<noteq> None \<and> since \<le> moment r) (r # rs)"
    have sr: "success r \<noteq> None" "since \<le> moment r"
      and all': "list_all (\<lambda>r. success r \<noteq> None \<and> since \<le> moment r) rs"
      using all by simp_all
    have ts: "timestamps_stay rs"
      using all' by (intro timestamps_stay_all) (simp add: list_all_iff)
    show "fst (evaluate_all s (r # rs)) \<longleftrightarrow>
        streak_reaches c since (r # rs) \<or> has_streak c (r # rs)"
    proof (cases "fresh_below c r")
      case True
      then have fb: "fresh s r" "below s r" using f by (simp_all add: fresh_below_def)
      show ?thesis
      proof (cases "voltage_cutoff_buffer c \<le> moment r - since")
        case True
        then have "monitor_state ?e = TRIPPED"
          using evaluate_fresh_below(2)[OF fb p] f by simp
        then have "fst ?e" by (simp add: monitor_state_simps)
        with True \<open>fresh_below c r\<close> show ?thesis by (simp add: evaluate_all_Cons del: evaluate_all.simps)
      next
        case False
        then have "monitor_state ?e = BELOW_PENDING since"
          using evaluate_fresh_below(3)[OF fb p] f by simp
        then have e: "\<not> fst ?e" "voltage_below_cutoff_time (snd ?e) = Some since"
          by (simp_all add: monitor_state_simps)
        with IH all' have "fst (evaluate_all (snd ?e) rs)
            \<longleftrightarrow> streak_reaches c since rs \<or> has_streak c rs"
          by blast
        moreover have "streak_reaches c (moment r) rs \<Longrightarrow> streak_reaches c since rs"
          using sr(2) by (rule streak_reaches_mono)
        ultimately show ?thesis
          using e False \<open>fresh_below c r\<close> by (auto simp add: evaluate_all_Cons simp del: evaluate_all.simps)
      qed
    next
      case False
      have "monitor_state ?e = OK"
      proof (cases "fresh s r")
        case True
        with False f have "\<not> below s r" by (simp add: fresh_below_def)
        with True show ?thesis by (rule evaluate_fresh_above)
      next
        case nf: False
        with sr(1) show ?thesis using evaluate_stale(1)[of s r] by simp
      qed
      then have e: "\<not> fst ?e" "voltage_below_cutoff_time (snd ?e) = None"
        by (simp_all add: monitor_state_simps)
      with IH ts have "fst (evaluate_all (snd ?e) rs) \<longleftrightarrow> has_streak c rs" by blast
      with e False show ?thesis by (simp add: evaluate_all_Cons del: evaluate_all.simps)
    qed
  qed
qed

lemma ex_below_Suc: "(\<exists>j<Suc n. P j) \<longleftrightarrow> P 0 \<or> (\<exists>j<n. P (Suc j))"
  by (auto simp: less_Suc_eq_0_disj)

lemma all_upto_Suc: "(\<forall>k\<le>Suc j. P k) \<longleftrightarrow> P 0 \<and> (\<forall>k\<le>j. P (Suc k))"
proof
  assume "\<forall>k\<le>Suc j. P k"
  then show "P 0 \<and> (\<forall>k\<le>j. P (Suc k))" by auto
next
  assume a: "P 0 \<and> (\<forall>k\<le>j. P (Suc k))"
  show "\<forall>k\<le>Suc j. P k"
  proof (intro allI impI)
    fix k assume "k \<le> Suc j"
    then show "P k" using a by (cases k) auto
  qed
qed

lemma streak_reaches_index:
  "streak_reaches c since rs \<longleftrightarrow>
     (\<exists>j<length rs. (\<forall>k\<le>j. fresh_below c (rs ! k))
                    \<and> voltage_cutoff_buffer c \<le> moment (rs ! j) - since)"
proof (induction rs)
  case Nil
  then show ?case by simp
next
  case (Cons r rs)
  show ?case
    by (simp add: Cons.IH ex_below_Suc all_upto_Suc) blast
qed

lemma streak_at_Cons_Suc: "streak_at c (r # rs) (Suc i) (Suc j) \<longleftrightarrow> streak_at c rs i j"
proof -
  have "(\<forall>k. Suc i \<le> k \<and> k \<le> Suc j \<longrightarrow> fresh_below c ((r # rs) ! k))
      \<longleftrightarrow> (\<forall>k. i \<le> k \<and> k \<le> j \<longrightarrow> fresh_below c (rs ! k))"
  proof
    assume a: "\<forall>k. Suc i \<le> k \<and> k \<le> Suc j \<longrightarrow> fresh_below c ((r # rs) ! k)"
    show "\<forall>k. i \<le> k \<and> k \<le> j \<longrightarrow> fresh_below c (rs ! k)"
    proof (intro allI impI)
      fix k assume "i \<le> k \<and> k \<le> j"
      then show "fresh_below c (rs ! k)" using a[rule_format, of "Suc k"] by simp
    qed
  next
    assume a: "\<forall>k. i \<le> k \<and> k \<le> j \<longrightarrow> fresh_below c (rs ! k)"
    show "\<forall>k. Suc i \<le> k \<and> k \<le> Suc j \<longrightarrow> fresh_below c ((r # rs) ! k)"
    proof (intro allI impI)
      fix k assume k: "Suc i \<le> k \<and> k \<le> Suc j"
      then obtain k' where "k = Suc k'" by (cases k) auto
      with k show "fresh_below c ((r # rs) ! k)" using a[rule_format, of k'] by simp
    qed
  qed
  then show ?thesis by (simp add: streak_at_def)
qed

lemma streak_at_Cons_0:
  "streak_at c (r # rs) 0 (Suc j) \<longleftrightarrow>
     fresh_below c r \<and> j < length rs \<and> (\<forall>k\<le>j. fresh_below c (rs ! k))
     \<and> voltage_cutoff_buffer c \<le> moment (rs ! j) - moment r"
proof -
  have "(\<forall>k. 0 \<le> k \<and> k \<le> Suc j \<longrightarrow> fresh_below c ((r # rs) ! k))
      \<longleftrightarrow> (\<forall>k\<le>Suc j. fresh_below c ((r # rs) ! k))" by simp
  also have "\<dots> \<longleftrightarrow> fresh_below c r \<and> (\<forall>k\<le>j. fresh_below c (rs ! k))"
    by (subst all_upto_Suc) simp
  finally show ?thesis by (auto simp add: streak_at_def)
qed

lemma has_streak_index: "has_streak c rs \<longleftrightarrow> (\<exists>i j. streak_at c rs i j)"
proof (induction rs)
  case Nil
  then show ?case by (simp add: streak_at_def)
next
  case (Cons r rs)
  show ?case
  proof
    assume "has_streak c (r # rs)"
    then consider "fresh_below c r \<and> streak_reaches c (moment r) rs" | "has_streak c rs"
      by auto
    then show "\<exists>i j. streak_at c (r # rs) i j"
    proof cases
      case 1
      then obtain j where "j < length rs" "\<forall>k\<le>j. fresh_below c (rs ! k)"
          "voltage_cutoff_buffer c \<le> moment (rs ! j) - moment r"
        by (auto simp: streak_reaches_index)
      with 1 have "streak_at c (r # rs) 0 (Suc j)" by (simp add: streak_at_Cons_0)
      then show ?thesis by blast
    next
      case 2
      then obtain i j where "streak_at c rs i j" using Cons.IH by blast
      then have "streak_at c (r # rs) (Suc i) (Suc j)" by (simp add: streak_at_Cons_Suc)
      then show ?thesis by blast
    qed
  next
    assume "\<exists>i j. streak_at c (r # rs) i j"
    then obtain i j where ij: "streak_at c (r # rs) i j" by blast
    then have "i < j" by (simp add: streak_at_def)
    then obtain j' where j: "j = Suc j'" by (cases j) auto
    show "has_streak c (r # rs)"
    proof (cases i)
      case 0
      with ij j have "fresh_below c r \<and> streak_reaches c (moment r) rs"
        by (auto simp add: streak_at_Cons_0 streak_reaches_index)
      then show ?thesis by simp
    next
      case (Suc i')
      with ij j have "streak_at c rs i' j'" by (simp add: streak_at_Cons_Suc)
      then have "has_streak c rs" using Cons.IH by blast
      then show ?thesis by simp
    qed
  qed
qed

lemma timestamps_kept_stay: "timestamps_kept rs \<Longrightarrow> timestamps_stay rs"
proof (induction rs)
  case Nil
  then show ?case by simp
next
  case (Cons r rs)
  have "timestamps_kept rs"
    unfolding timestamps_kept_def
  proof (intro allI impI)
    fix i j assume "i < j \<and> j < length rs \<and> success (rs ! i) \<noteq> None"
    then show "success (rs ! j) \<noteq> None"
      using Cons.prems[unfolded timestamps_kept_def, rule_format, of "Suc i" "Suc j"] by simp
  qed
  moreover have "list_all (\<lambda>x. success x \<noteq> None) rs" if "success r \<noteq> None"
    unfolding list_all_length
  proof (intro allI impI)
    fix j assume "j < length rs"
    then show "success (rs ! j) \<noteq> None"
      using Cons.prems[unfolded timestamps_kept_def, rule_format, of 0 "Suc j"] that by simp
  qed
  ultimately show ?case using Cons.IH by simp
qed

lemma same_pending_refl [simp]: "same_pending s s"
  by (simp add: same_pending_def)

lemma same_pending_log_message [simp]: "same_pending s (log_message m s') = same_pending s s'"
  by (simp add: same_pending_def log_message_def)

lemma same_pending_sleep [simp]: "same_pending s (sleep d s') = same_pending s s'"
  by (simp add: same_pending_def sleep_def)

lemma same_pending_instrument_call [simp]:
  "same_pending s (snd (instrument_call cmd s')) = same_pending s s'"
  by (simp add: same_pending_def instrument_call_eq)

lemma same_pending_updates [simp]:
  "same_pending s (s'\<lparr>last_command_time := x\<rparr>) = same_pending s s'"
  "same_pending s (s'\<lparr>last_valid_voltage := v, last_valid_current := i,
       last_measurement_success_time := y, last_measurement_time := w\<rparr>) = same_pending s s'"
  "same_pending s (s'\<lparr>target_current := z\<rparr>) = same_pending s s'"
  "same_pending s (s'\<lparr>csv_log := u\<rparr>) = same_pending s s'"
  "same_pending s (s'\<lparr>current_row := n\<rparr>) = same_pending s s'"
  "same_pending s (s'\<lparr>test_running := b\<rparr>) = same_pending s s'"
  "same_pending s (s'\<lparr>stop_event := b\<rparr>) = same_pending s s'"
  by (simp_all add: same_pending_def)

lemma same_pending_wait [simp]: "same_pending s (wait_command_interval s') = same_pending s s'"
  by (simp add: wait_command_interval_def Let_def)

lemma same_pending_write_attempts:
  "same_pending s s' \<Longrightarrow> same_pending s (snd (write_attempts n a c s'))"
proof (induction n arbitrary: a s')
  case 0
  then show ?case by simp
next
  case (Suc n)
  show ?case using Suc.prems
    by (auto simp add: Let_def case_prod_beta intro!: Suc.IH split: reply.splits)
qed

lemma same_pending_query_attempts:
  "same_pending s s' \<Longrightarrow> same_pending s (snd (query_attempts n a c s'))"
proof (induction n arbitrary: a s')
  case 0
  then show ?case by simp
next
  case (Suc n)
  show ?case using Suc.prems
    by (auto simp add: Let_def case_prod_beta intro!: Suc.IH split: reply.splits)
qed

lemma same_pending_safe_write [simp]:
  "same_pending s s' \<Longrightarrow> same_pending s (snd (safe_write c s'))"
  by (simp add: safe_write_def same_pending_write_attempts)

lemma same_pending_safe_query [simp]:
  "same_pending s s' \<Longrightarrow> same_pending s (snd (safe_query c s'))"
  by (simp add: safe_query_def same_pending_query_attempts)

lemma same_pending_clear [simp]:
  "same_pending s (clear_pending_errors a s') = same_pending s s'"
  by (simp add: clear_pending_errors_def case_prod_beta split: reply.splits)

lemma same_pending_verify [simp]:
  "same_pending s (snd (verify_setting v s')) = same_pending s s'"
  by (simp add: verify_setting_def Let_def case_prod_beta split: reply.splits option.splits)

lemma same_pending_set_current_attempts:
  "same_pending s s' \<Longrightarrow> same_pending s (snd (set_current_attempts n a v s'))"
proof (induction n arbitrary: a s')
  case 0
  then show ?case by simp
next
  case (Suc n)
  show ?case using Suc.prems
    by (auto simp add: Let_def case_prod_beta intro!: Suc.IH split: reply.splits)
qed

lemma same_pending_safe_set_current [simp]:
  "same_pending s s' \<Longrightarrow> same_pending s (snd (safe_set_current v s'))"
  by (simp add: safe_set_current_def same_pending_set_current_attempts)

lemma same_pending_update_load [simp]:
  "same_pending s s' \<Longrightarrow> same_pending s (snd (update_load v s'))"
  by (simp add: update_load_def Let_def case_prod_beta)

lemma same_pending_measure_attempts [simp]:
  "same_pending s (snd (measure_attempts c w s')) = same_pending s s'"
  by (simp add: measure_attempts_def Let_def case_prod_beta split: reply.splits option.splits)

lemma same_pending_safe_measure [simp]:
  "same_pending s (snd (safe_measure s')) = same_pending s s'"
  by (simp add: safe_measure_def Let_def case_prod_beta split: option.splits)

lemma same_pending_stop_test [simp]:
  "same_pending s s' \<Longrightarrow> same_pending s (stop_test s')"
  by (simp add: stop_test_def Let_def)

lemma same_pending_operator [simp]:
  "same_pending s s' \<Longrightarrow> same_pending s (operator s')"
  by (simp add: operator_def split: option.splits)

lemma same_pending_advance [simp]:
  "same_pending s (advance s') = same_pending s s'"
  by (simp add: advance_def Let_def)

lemma pending_inv_same:
  "same_cache s s' \<Longrightarrow> same_pending s s' \<Longrightarrow> pending_inv s \<Longrightarrow> pending_inv s'"
  by (simp add: pending_inv_def same_cache_def same_pending_def)

lemma pending_inv_check_voltage_cutoff:
  "pending_inv s \<Longrightarrow> pending_inv (snd (check_voltage_cutoff v s))"
  by (auto simp add: pending_inv_def check_voltage_cutoff_def measurement_age_def log_message_def
      Let_def split: option.splits)

lemma safe_measure_outcome:
  "same_cache s (snd (safe_measure s))
   \<or> last_measurement_success_time (snd (safe_measure s)) = Some (clock (snd (safe_measure s)))"
proof -
  let ?fail = "\<not> instrument s \<or> rate_limited s \<or> clock (snd (voltage_poll s)) - clock s > 5
      \<or> fst (voltage_poll s) = None \<or> fst (current_poll s) = None
      \<or> (\<exists>v. fst (voltage_poll s) = Some v \<and> \<not> (0 \<le> v \<and> v \<le> 50))
      \<or> (\<exists>i. fst (current_poll s) = Some i \<and> \<not> (0 \<le> i \<and> i \<le> 50))"
  show ?thesis
  proof (cases ?fail)
    case True
    then show ?thesis using safe_measure_failed[of s] by blast
  next
    case False
    then obtain v i where "fst (voltage_poll s) = Some v" "fst (current_poll s) = Some i"
      by auto
    with False show ?thesis using safe_measure_succeeded[of s v i] by auto
  qed
qed

lemma timestamp_kept_safe_measure:
  "last_measurement_success_time s \<noteq> None \<Longrightarrow>
   last_measurement_success_time (snd (safe_measure s)) \<noteq> None"
  using safe_measure_outcome[of s] by (auto simp: same_cache_def)

lemma pending_inv_safe_measure:
  "pending_inv s \<Longrightarrow> pending_inv (snd (safe_measure s))"
proof -
  assume inv: "pending_inv s"
  have p: "same_pending s (snd (safe_measure s))" by simp
  from safe_measure_outcome[of s] show ?thesis
  proof
    assume "same_cache s (snd (safe_measure s))"
    then show ?thesis using p inv by (rule pending_inv_same)
  next
    assume "last_measurement_success_time (snd (safe_measure s))
        = Some (clock (snd (safe_measure s)))"
    then show ?thesis by (simp add: pending_inv_def)
  qed
qed

lemma pending_inv_updates [simp]:
  "pending_inv (s\<lparr>target_current := x\<rparr>) = pending_inv s"
  "pending_inv (s\<lparr>csv_log := y\<rparr>) = pending_inv s"
  "pending_inv (log_message m s) = pending_inv s"
  by (simp_all add: pending_inv_def log_message_def)

lemma pending_inv_update_load: "pending_inv s \<Longrightarrow> pending_inv (snd (update_load v s))"
  by (rule pending_inv_same[of s]) simp_all

lemma pending_inv_batch: "pending_inv s \<Longrightarrow> pending_inv (snd (batch s))"
  by (simp add: batch_def Let_def case_prod_beta pending_inv_update_load
      pending_inv_safe_measure pending_inv_check_voltage_cutoff split: option.splits)

lemma pending_inv_operator: "pending_inv s \<Longrightarrow> pending_inv (operator s)"
  by (rule pending_inv_same[of s]) simp_all

lemma pending_inv_advance: "pending_inv s \<Longrightarrow> pending_inv (advance s)"
  by (rule pending_inv_same[of s]) simp_all

lemma pending_inv_test_loop: "pending_inv s0 \<Longrightarrow> pending_inv (snd (test_loop s0))"
proof (induction s0 rule: test_loop.induct)
  case (1 s0)
  let ?s = "operator s0"
  have s: "pending_inv ?s" by (rule pending_inv_operator[OF "1.prems"])
  show ?case
  proof (cases "\<not> (test_running ?s \<and> current_row ?s < length (test_data ?s)) \<or> stop_event ?s")
    case True
    then show ?thesis using s by (subst test_loop.simps) (auto simp: Let_def)
  next
    case False
    obtain ex s1 where b: "(if current_row ?s mod 200 = 0 then batch ?s else (None, ?s)) = (ex, s1)"
      by (cases "if current_row ?s mod 200 = 0 then batch ?s else (None, ?s)") auto
    have s1: "pending_inv s1" using b s pending_inv_batch[of ?s] by (auto split: if_splits)
    show ?thesis
    proof (cases ex)
      case None
      have "pending_inv (advance s1)" by (rule pending_inv_advance[OF s1])
      then have "pending_inv (snd (test_loop (advance s1)))"
        using "1.IH"[OF refl _ _ b[symmetric] refl None] False by simp
      then show ?thesis using False b None by (subst test_loop.simps) (simp add: Let_def)
    next
      case (Some e)
      then show ?thesis using False b s1 by (subst test_loop.simps) (simp add: Let_def)
    qed
  qed
qed

lemma stale_never_trips:
  "same_limits c s \<Longrightarrow> list_all (\<lambda>r. \<not> fresh c r) rs \<Longrightarrow>
   \<not> fst (evaluate_all s rs)
   \<and> (voltage_below_cutoff_time s = None \<longrightarrow>
        voltage_below_cutoff_time (snd (evaluate_all s rs)) = None)"
proof (induction rs arbitrary: s)
  case Nil
  then show ?case by simp
next
  case (Cons r rs)
  let ?e = "evaluate s r"
  have lim: "same_limits c (snd ?e)"
    by (rule same_limits_trans[OF Cons.prems(1) same_limits_evaluate])
  have st: "\<not> fresh s r" and rest: "list_all (\<lambda>r. \<not> fresh c r) rs"
    using Cons.prems same_limits_fresh[of c s] by simp_all
  have m: "monitor_state ?e = OK \<or> monitor_state ?e = monitor_state (False, s)"
    using evaluate_stale[OF st] by blast
  have e: "\<not> fst ?e"
  proof
    assume "fst ?e"
    then have t: "monitor_state ?e = TRIPPED" by (simp add: monitor_state_simps)
    have "monitor_state (False, s) \<noteq> TRIPPED" by (simp add: monitor_state_simps)
    with m t show False by auto
  qed
  have n: "voltage_below_cutoff_time (snd ?e) = None" if "voltage_below_cutoff_time s = None"
  proof -
    have "monitor_state (False, s) = OK" using that by (simp add: monitor_state_simps)
    with m have "monitor_state ?e = OK" by auto
    then show ?thesis by (simp add: monitor_state_simps)
  qed
  show ?case
    using Cons.IH[OF lim rest] e n
    by (simp add: evaluate_all_Cons del: evaluate_all.simps)
qed

lemma stale_resets:
  assumes "pending_inv s" "voltage_below_cutoff_time s = Some since" "stale_now s"
  shows "monitor_state (check_voltage_cutoff v s) = OK"
  using assms
  by (auto simp add: pending_inv_def stale_now_def check_voltage_cutoff_def measurement_age_def
      monitor_state_def log_message_def split: option.splits)

lemma pending_set_fresh:
  assumes "voltage_below_cutoff_time (snd (check_voltage_cutoff v s)) = Some t"
    "voltage_below_cutoff_time s \<noteq> Some t"
  shows "\<not> stale_now s \<and> v \<le> voltage_cutoff s \<and> t = clock s"
  using assms
  by (auto simp add: stale_now_def check_voltage_cutoff_def measurement_age_def
      log_message_def Let_def split: option.splits if_splits)

lemma trip_fresh:
  assumes "fst (check_voltage_cutoff v s)"
  shows "\<not> stale_now s \<and> v \<le> voltage_cutoff s"
  using assms
  by (auto simp add: stale_now_def check_voltage_cutoff_def measurement_age_def
      log_message_def Let_def split: option.splits if_splits)

text \<open>
  Claim C1. Let a run start with no countdown pending, with readings in the order of
  their times, and with the success timestamp never lost once it exists. Then the monitor
  reaches \<open>TRIPPED\<close> if and only if there are two readings, the second at least the
  buffer after the first, such that they and all readings between them are fresh and at or
  below the cutoff. Step by step: a fresh reading at or below the cutoff takes \<open>OK\<close> to
  \<open>BELOW_PENDING\<close> from its own time; it takes \<open>BELOW_PENDING since\<close> to \<open>TRIPPED\<close> when
  its time is at least the buffer after \<open>since\<close>, and leaves it otherwise; a fresh reading
  above the cutoff gives \<open>OK\<close>.
\<close>

theorem cutoff_trips_after_buffer:
  "(voltage_below_cutoff_time s = None \<and> sorted (map moment rs) \<and> timestamps_kept rs \<longrightarrow>
      (monitor_state (evaluate_all s rs) = TRIPPED \<longleftrightarrow> (\<exists>i j. streak_at s rs i j)))
   \<and> (fresh s r \<and> below s r \<and> monitor_state (False, s) = OK \<longrightarrow>
        monitor_state (evaluate s r) = BELOW_PENDING (moment r))
   \<and> (fresh s r \<and> below s r \<and> monitor_state (False, s) = BELOW_PENDING since
        \<and> voltage_cutoff_buffer s \<le> moment r - since \<longrightarrow>
        monitor_state (evaluate s r) = TRIPPED)
   \<and> (fresh s r \<and> below s r \<and> monitor_state (False, s) = BELOW_PENDING since
        \<and> \<not> voltage_cutoff_buffer s \<le> moment r - since \<longrightarrow>
        monitor_state (evaluate s r) = BELOW_PENDING since)
   \<and> (fresh s r \<and> \<not> below s r \<longrightarrow> monitor_state (evaluate s r) = OK)"
proof (intro conjI impI)
  assume a: "voltage_below_cutoff_time s = None \<and> sorted (map moment rs) \<and> timestamps_kept rs"
  have lim: "same_limits s s" by (simp add: same_limits_def)
  have srt: "sorted (map moment rs)" using a by simp
  have ts: "timestamps_stay rs" using a by (simp add: timestamps_kept_stay)
  have ok: "voltage_below_cutoff_time s = None" using a by simp
  have "fst (evaluate_all s rs) \<longleftrightarrow> has_streak s rs"
    by (rule tripped_iff_streak[OF lim srt, THEN conjunct1, rule_format, OF ok ts])
  then show "monitor_state (evaluate_all s rs) = TRIPPED \<longleftrightarrow> (\<exists>i j. streak_at s rs i j)"
    by (simp add: monitor_state_simps has_streak_index)
next
  assume "fresh s r \<and> below s r \<and> monitor_state (False, s) = OK"
  then show "monitor_state (evaluate s r) = BELOW_PENDING (moment r)"
    using evaluate_fresh_below(1)[of s r] by (simp add: monitor_state_simps)
next
  assume "fresh s r \<and> below s r \<and> monitor_state (False, s) = BELOW_PENDING since
        \<and> voltage_cutoff_buffer s \<le> moment r - since"
  then show "monitor_state (evaluate s r) = TRIPPED"
    using evaluate_fresh_below(2)[of s r since] by (simp add: monitor_state_simps)
next
  assume "fresh s r \<and> below s r \<and> monitor_state (False, s) = BELOW_PENDING since
        \<and> \<not> voltage_cutoff_buffer s \<le> moment r - since"
  then show "monitor_state (evaluate s r) = BELOW_PENDING since"
    using evaluate_fresh_below(3)[of s r since] by (simp add: monitor_state_simps)
next
  assume "fresh s r \<and> \<not> below s r"
  then show "monitor_state (evaluate s r) = OK"
    using evaluate_fresh_above[of s r] by simp
qed

text \<open>
  Claim C2. On readings that are all stale the monitor never reaches \<open>TRIPPED\<close>, whatever
  the voltages, and from \<open>OK\<close> it stays \<open>OK\<close>. A stale evaluation in \<open>BELOW_PENDING\<close>
  gives \<open>OK\<close>. \<^verbatim>\<open>voltage_below_cutoff_time\<close> is set to a new time only by an evaluation that
  is not stale, with a voltage at or below the cutoff, and the time is the time of that
  evaluation; the cutoff triggers only in an evaluation that is not stale. The second
  statement is about the states the program reaches: a countdown is pending only when a
  successful measurement exists, which holds when a test starts (no countdown) and is kept
  by the cutoff check, by \<^verbatim>\<open>safe_measure\<close>, by a batch and by the whole loop.
\<close>

theorem stale_readings_never_trip:
  "(list_all (\<lambda>r. \<not> fresh s r) rs \<longrightarrow>
      monitor_state (evaluate_all s rs) \<noteq> TRIPPED
      \<and> (monitor_state (False, s) = OK \<longrightarrow> monitor_state (evaluate_all s rs) = OK))
   \<and> (pending_inv s \<and> monitor_state (False, s) = BELOW_PENDING since \<and> stale_now s \<longrightarrow>
        monitor_state (check_voltage_cutoff v s) = OK)
   \<and> (voltage_below_cutoff_time (snd (check_voltage_cutoff v s)) = Some t
        \<and> voltage_below_cutoff_time s \<noteq> Some t \<longrightarrow>
        \<not> stale_now s \<and> v \<le> voltage_cutoff s \<and> t = clock s)
   \<and> (monitor_state (check_voltage_cutoff v s) = TRIPPED \<longrightarrow> \<not> stale_now s)
   \<and> (pending_inv s \<longrightarrow>
        pending_inv (snd (check_voltage_cutoff v s)) \<and> pending_inv (snd (safe_measure s))
        \<and> pending_inv (snd (batch s)) \<and> pending_inv (snd (test_loop s)))
   \<and> (voltage_below_cutoff_time s = None \<longrightarrow> pending_inv s)"
proof (intro conjI impI)
  assume a: "list_all (\<lambda>r. \<not> fresh s r) rs"
  have "same_limits s s" by (simp add: same_limits_def)
  note n = stale_never_trips[OF this a]
  show "monitor_state (evaluate_all s rs) \<noteq> TRIPPED"
    using n by (simp add: monitor_state_simps)
  show "monitor_state (evaluate_all s rs) = OK" if "monitor_state (False, s) = OK"
    using n that by (simp add: monitor_state_simps)
next
  assume "pending_inv s \<and> monitor_state (False, s) = BELOW_PENDING since \<and> stale_now s"
  then show "monitor_state (check_voltage_cutoff v s) = OK"
    using stale_resets[of s since v] by (simp add: monitor_state_simps)
next
  assume "voltage_below_cutoff_time (snd (check_voltage_cutoff v s)) = Some t
        \<and> voltage_below_cutoff_time s \<noteq> Some t"
  then have "\<not> stale_now s \<and> v \<le> voltage_cutoff s \<and> t = clock s"
    using pending_set_fresh[of v s t] by blast
  then show "\<not> stale_now s" "v \<le> voltage_cutoff s" "t = clock s" by simp_all
next
  assume "monitor_state (check_voltage_cutoff v s) = TRIPPED"
  then show "\<not> stale_now s" using trip_fresh[of v s] by (simp add: monitor_state_simps)
next
  assume p: "pending_inv s"
  show "pending_inv (snd (check_voltage_cutoff v s))"
    by (rule pending_inv_check_voltage_cutoff[OF p])
  show "pending_inv (snd (safe_measure s))" by (rule pending_inv_safe_measure[OF p])
  show "pending_inv (snd (batch s))" by (rule pending_inv_batch[OF p])
  show "pending_inv (snd (test_loop s))" by (rule pending_inv_test_loop[OF p])
next
  assume "voltage_below_cutoff_time s = None"
  then show "pending_inv s" by (simp add: pending_inv_def)
qed

lemma timestamps_kept_all: "list_all (\<lambda>x. success x \<noteq> None) rs \<Longrightarrow> timestamps_kept rs"
  by (simp add: timestamps_kept_def list_all_length)

text \<open>
  The theorem on the falling voltage: pending from 0.3 s, tripped at 1.4 s, with cutoff
  2.75 V and buffer 1 s.
\<close>

theorem cutoff_trips_after_buffer_witness:
  "voltage_below_cutoff_time (init dead_link None) = None
   \<and> sorted (map moment falling) \<and> timestamps_kept falling
   \<and> monitor_state (evaluate_all (init dead_link None) falling) = TRIPPED
   \<and> (\<exists>i j. streak_at (init dead_link None) falling i j)
   \<and> monitor_state (evaluate (init dead_link None) (Reading (3 / 10) (Some (3 / 10)) (27 / 10)))
       = BELOW_PENDING (3 / 10)
   \<and> monitor_state (evaluate (init dead_link None) (Reading 0 (Some 0) (28 / 10))) = OK"
proof -
  let ?s = "init dead_link None"
  let ?r = "Reading (3 / 10) (Some (3 / 10)) (27 / 10)"
  let ?a = "Reading 0 (Some 0) (28 / 10)"
  have 1: "voltage_below_cutoff_time ?s = None" by (simp add: init_def)
  have 2: "sorted (map moment falling)" by (simp add: falling_def)
  have 3: "timestamps_kept falling"
    by (rule timestamps_kept_all) (simp add: falling_def del: not_None_eq)
  have 4: "monitor_state (evaluate_all ?s falling) = TRIPPED"
    by (simp add: falling_def evaluate_def check_voltage_cutoff_def measurement_age_def
        init_def log_message_def monitor_state_def)
  have f: "fresh ?s ?r" "below ?s ?r" "monitor_state (False, ?s) = OK"
    by (simp_all add: fresh_def below_def monitor_state_def init_def)
  have g: "fresh ?s ?a" "\<not> below ?s ?a"
    by (simp_all add: fresh_def below_def init_def)
  note T = cutoff_trips_after_buffer[of ?s falling ?r 0]
  note U = cutoff_trips_after_buffer[of ?s falling ?a 0]
  have 5: "\<exists>i j. streak_at ?s falling i j"
    using T[THEN conjunct1] 1 2 3 4 by blast
  have 6: "monitor_state (evaluate ?s ?r) = BELOW_PENDING (3 / 10)"
    using T[THEN conjunct2, THEN conjunct1] f by simp
  have 7: "monitor_state (evaluate ?s ?a) = OK"
    using U[THEN conjunct2, THEN conjunct2, THEN conjunct2, THEN conjunct2] g by blast
  show ?thesis by (intro conjI 1 2 3 4 5 6 7)
qed

text \<open>
  The theorem on the falling voltage read 11 s late (threshold 10 s), and in a state with
  a countdown pending whose measurement is 15 s old.
\<close>

theorem stale_readings_never_trip_witness:
  "list_all (\<lambda>r. \<not> fresh (init dead_link None) r) falling_stale
   \<and> monitor_state (False, init dead_link None) = OK
   \<and> monitor_state (evaluate_all (init dead_link None) falling_stale) = OK
   \<and> pending_inv ((init dead_link None)\<lparr>voltage_below_cutoff_time := Some 5,
         last_measurement_success_time := Some 5, clock := 20\<rparr>)
   \<and> stale_now ((init dead_link None)\<lparr>voltage_below_cutoff_time := Some 5,
         last_measurement_success_time := Some 5, clock := 20\<rparr>)
   \<and> monitor_state (check_voltage_cutoff 2 ((init dead_link None)\<lparr>voltage_below_cutoff_time := Some 5,
         last_measurement_success_time := Some 5, clock := 20\<rparr>)) = OK
   \<and> pending_inv (snd (test_loop ((init dead_link None)\<lparr>voltage_below_cutoff_time := Some 5,
         last_measurement_success_time := Some 5, clock := 20\<rparr>)))"
proof -
  let ?s = "init dead_link None"
  let ?p = "(init dead_link None)\<lparr>voltage_below_cutoff_time := Some 5,
         last_measurement_success_time := Some 5, clock := 20\<rparr>"
  have 1: "list_all (\<lambda>r. \<not> fresh ?s r) falling_stale"
    by (simp add: falling_stale_def fresh_def init_def)
  have 2: "monitor_state (False, ?s) = OK" by (simp add: monitor_state_def init_def)
  have 3: "pending_inv ?p" by (simp add: pending_inv_def)
  have 4: "stale_now ?p" by (simp add: stale_now_def measurement_age_def init_def)
  have 5: "monitor_state (False, ?p) = BELOW_PENDING 5" by (simp add: monitor_state_def)
  note T = stale_readings_never_trip[of ?s falling_stale 0 0 0]
  note U = stale_readings_never_trip[of ?p "[]" 5 2 0]
  have 6: "monitor_state (evaluate_all ?s falling_stale) = OK"
    using T[THEN conjunct1] 1 2 by blast
  have 7: "monitor_state (check_voltage_cutoff 2 ?p) = OK"
    using U[THEN conjunct2, THEN conjunct1] 3 4 5 by blast
  have 8: "pending_inv (snd (test_loop ?p))"
    using U[THEN conjunct2, THEN conjunct2, THEN conjunct2, THEN conjunct2, THEN conjunct1] 3
    by blast
  show ?thesis by (intro conjI 1 2 3 4 6 7 8)
qed

section \<open>How the test loop ends\<close>

lemma attempts_numerals:
  "set_current_attempts 5 = set_current_attempts (Suc (Suc (Suc (Suc (Suc 0)))))"
  "write_attempts 3 = write_attempts (Suc (Suc (Suc 0)))"
  "query_attempts 3 = query_attempts (Suc (Suc (Suc 0)))"
  by (simp_all add: eval_nat_numeral)

lemmas eval_defs = batch_def update_load_def safe_set_current_def safe_write_def
  safe_measure_def measure_attempts_def check_voltage_cutoff_def measurement_age_def
  verify_setting_def clear_pending_errors_def wait_command_interval_def
  instrument_call_eq sleep_def log_message_def operator_def stop_test_def advance_def
  interpolate_current_window_def processed_currents_def process_current_def np_mean_def
  init_def Let_def attempts_numerals

lemma interpolate_total: "\<exists>r. interpolate_current_window c xs = Some r"
proof (cases "xs = []")
  case True
  then show ?thesis by (simp add: interpolate_current_window_def)
next
  case False
  let ?cs = "processed_currents c xs"
  have ne: "?cs \<noteq> []" using False by simp
  obtain m where m: "np_max ?cs = Some m" using ne by (cases ?cs) auto
  have w: "\<exists>r. np_average ?cs (if np_sum ?cs > 0 then map (\<lambda>x. x / np_sum ?cs) ?cs
                            else map (\<lambda>x. 1) ?cs) = Some r"
    using weighted_positive[of ?cs] weighted_uniform[OF ne] by (simp add: np_sum_def)
  show ?thesis
    using False w m by (auto simp add: interpolate_current_window_def Let_def)
qed

lemma test_loop_idle:
  assumes "stop_pressed s = None" "test_running s" "\<not> stop_event s"
    "current_row s < length (test_data s)" "current_row s mod 200 \<noteq> 0"
  shows "test_loop s = test_loop (advance s)"
  by (subst test_loop.simps) (simp add: operator_def assms Let_def)

lemma test_loop_batch:
  assumes "stop_pressed s = None" "test_running s" "\<not> stop_event s"
    "current_row s < length (test_data s)" "current_row s mod 200 = 0" "fst (batch s) = None"
  shows "test_loop s = test_loop (advance (snd (batch s)))"
  by (subst test_loop.simps) (simp add: operator_def assms Let_def case_prod_beta)

lemma test_loop_done:
  assumes "stop_pressed s = None" "\<not> current_row s < length (test_data s)"
  shows "test_loop s = (While_false, s)"
  by (subst test_loop.simps) (simp add: operator_def assms Let_def)

lemma advance_plain:
  "Suc (current_row s) mod 200 \<noteq> 0 \<Longrightarrow> advance s = s\<lparr>current_row := current_row s + 1\<rparr>"
proof -
  assume a: "Suc (current_row s) mod 200 \<noteq> 0"
  have "Suc (current_row s) mod 2000 mod 200 = Suc (current_row s) mod 200"
    by (rule mod_mod_cancel) simp
  with a have "Suc (current_row s) mod 2000 \<noteq> 0" by auto
  with a show ?thesis by (simp add: advance_def Let_def)
qed

lemma test_loop_skip:
  "stop_pressed s = None \<Longrightarrow> test_running s \<Longrightarrow> \<not> stop_event s \<Longrightarrow>
   0 < current_row s mod 200 \<Longrightarrow> current_row s mod 200 + n < 200 \<Longrightarrow>
   current_row s + n \<le> length (test_data s) \<Longrightarrow>
   test_loop s = test_loop (s\<lparr>current_row := current_row s + n\<rparr>)"
proof (induction n arbitrary: s)
  case 0
  then show ?case by simp
next
  case (Suc n)
  let ?s' = "s\<lparr>current_row := current_row s + 1\<rparr>"
  have m: "Suc (current_row s) mod 200 = Suc (current_row s mod 200)"
    using Suc.prems(5) by (simp add: mod_Suc)
  then have adv: "advance s = ?s'" by (simp add: advance_plain)
  have "test_loop s = test_loop (advance s)"
    using Suc.prems by (intro test_loop_idle) simp_all
  also have "\<dots> = test_loop ?s'" by (simp only: adv)
  also have "\<dots> = test_loop (?s'\<lparr>current_row := current_row ?s' + n\<rparr>)"
    using Suc.prems m by (intro Suc.IH) simp_all
  finally show ?case by simp
qed

lemma current_row_frame: "frame s s' \<Longrightarrow> current_row s' = current_row s"
  by (simp add: frame_def)

lemma update_load_break:
  assumes "fst (update_load v s)"
  shows "current_row (snd (update_load v s)) = 0
       \<and> last (console (snd (update_load v s))) = ''Failed to turn on load''"
proof -
  have c: "current_row (snd (update_load v s)) = current_row s"
    by (rule current_row_frame) simp
  have r: "current_row (snd (safe_set_current v s)) = current_row s"
    by (rule current_row_frame) simp
  from assms have "current_row s = 0"
    by (auto simp add: update_load_def Let_def case_prod_beta r split: if_splits)
  moreover from assms have "last (console (snd (update_load v s))) = ''Failed to turn on load''"
    by (auto simp add: update_load_def Let_def case_prod_beta split: if_splits)
  ultimately show ?thesis using c by simp
qed

lemma update_load_failed_setpoint:
  "1 / 1000 < v \<Longrightarrow> \<not> fst (safe_set_current v s) \<Longrightarrow>
     \<not> fst (update_load v s)
     \<and> last (console (snd (update_load v s))) = ''Failed to set current level - continuing test''"
  "\<not> 1 / 1000 < v \<Longrightarrow> \<not> fst (safe_set_current 0 s) \<Longrightarrow>
     \<not> fst (update_load v s)
     \<and> last (console (snd (update_load v s))) = ''Failed to set zero current - continuing test''"
  by (simp_all add: update_load_def Let_def case_prod_beta)

lemma check_voltage_cutoff_break:
  assumes "fst (check_voltage_cutoff v s)"
  shows "exit_justified Break_cutoff (snd (check_voltage_cutoff v s))"
  using assms
  by (auto simp add: exit_justified_def stale_now_def check_voltage_cutoff_def
      measurement_age_def log_message_def Let_def split: option.splits if_splits)

lemma batch_exit:
  assumes "fst (batch s) = Some e"
  shows "exit_justified e (snd (batch s))"
proof -
  obtain avg where avg: "interpolate_current_window s
      (drop (current_row s) (take (min (current_row s + 200) (length (test_data s))) (test_data s)))
      = Some avg"
    using interpolate_total by blast
  let ?s2 = "if current_row (s\<lparr>target_current := avg\<rparr>) mod 2000 = 0
             then log_message ''Window'' (s\<lparr>target_current := avg\<rparr>)
             else s\<lparr>target_current := avg\<rparr>"
  let ?u = "update_load avg ?s2"
  show ?thesis
  proof (cases "fst ?u")
    case True
    then have "batch s = (Some Break_load_on, snd ?u)"
      using avg by (simp add: batch_def Let_def case_prod_beta)
    with assms update_load_break[OF True] show ?thesis
      by (simp add: exit_justified_def)
  next
    case False
    let ?m = "safe_measure (snd ?u)"
    let ?s5 = "(snd ?m)\<lparr>csv_log := csv_log (snd ?m)
        @ [(current_row (snd ?m), avg, fst (fst ?m), snd (fst ?m))]\<rparr>"
    let ?c = "check_voltage_cutoff (fst (fst ?m)) ?s5"
    have b: "batch s = (if fst ?c then (Some Break_cutoff, snd ?c) else (None, snd ?c))"
      using avg False by (simp add: batch_def Let_def case_prod_beta)
    show ?thesis
    proof (cases "fst ?c")
      case True
      with b assms check_voltage_cutoff_break[OF True] show ?thesis by simp
    next
      case False
      with b assms show ?thesis by simp
    qed
  qed
qed

lemma test_loop_exit: "exit_justified (fst (test_loop s0)) (snd (test_loop s0))"
proof (induction s0 rule: test_loop.induct)
  case (1 s0)
  let ?s = "operator s0"
  show ?case
  proof (cases "\<not> (test_running ?s \<and> current_row ?s < length (test_data ?s))")
    case True
    then have "test_loop s0 = (While_false, ?s)"
      by (subst test_loop.simps) (simp add: Let_def)
    with True show ?thesis by (auto simp add: exit_justified_def)
  next
    case run: False
    show ?thesis
    proof (cases "stop_event ?s")
      case True
      with run have "test_loop s0 = (Break_stop_event, ?s)"
        by (subst test_loop.simps) (simp add: Let_def)
      with True show ?thesis by (simp add: exit_justified_def)
    next
      case False
      obtain ex s1 where b: "(if current_row ?s mod 200 = 0 then batch ?s else (None, ?s)) = (ex, s1)"
        by (cases "if current_row ?s mod 200 = 0 then batch ?s else (None, ?s)") auto
      show ?thesis
      proof (cases ex)
        case None
        have "exit_justified (fst (test_loop (advance s1))) (snd (test_loop (advance s1)))"
          using "1.IH"[OF refl _ _ b[symmetric] refl None] run False by simp
        moreover have "test_loop s0 = test_loop (advance s1)"
          using run False b None by (subst test_loop.simps) (simp add: Let_def)
        ultimately show ?thesis by simp
      next
        case (Some e)
        then have "fst (batch ?s) = Some e" "s1 = snd (batch ?s)"
          using b by (auto split: if_splits)
        then have "exit_justified e s1" using batch_exit[of ?s e] by simp
        moreover have "test_loop s0 = (e, s1)"
          using run False b Some by (subst test_loop.simps) (simp add: Let_def)
        ultimately show ?thesis by simp
      qed
    qed
  qed
qed

lemma operator_stop:
  "test_running s \<Longrightarrow> \<not> test_running (operator s) \<Longrightarrow>
   stop_pressed s \<noteq> None \<and> stop_event (operator s)"
proof -
  assume a: "test_running s" "\<not> test_running (operator s)"
  have f: "frame s1 (snd (safe_write c s1))" for c s1 by simp
  have e: "stop_event (stop_test s)"
    using a(1) f[of "(log_message ''Stopping test...'' s)\<lparr>test_running := False, stop_event := True\<rparr>"]
    by (simp add: stop_test_def Let_def frame_def sleep_def)
  from a show ?thesis
    using e by (auto simp add: operator_def split: option.splits if_splits)
qed

lemma stop_pressed_operator: "stop_pressed (operator s) = stop_pressed s"
proof -
  have f: "frame s1 (snd (safe_write c s1))" for c s1 by simp
  have "stop_pressed (stop_test s) = stop_pressed s"
    using f[of "(log_message ''Stopping test...'' s)\<lparr>test_running := False, stop_event := True\<rparr>"]
    by (simp add: stop_test_def Let_def frame_def sleep_def log_message_def)
  then show ?thesis by (simp add: operator_def split: option.splits)
qed

lemma test_loop_stopped:
  "test_running s0 \<Longrightarrow> \<not> test_running (snd (test_loop s0)) \<Longrightarrow>
   stop_pressed s0 \<noteq> None \<and> stop_event (snd (test_loop s0))"
proof (induction s0 rule: test_loop.induct)
  case (1 s0)
  let ?s = "operator s0"
  show ?case
  proof (cases "\<not> (test_running ?s \<and> current_row ?s < length (test_data ?s)) \<or> stop_event ?s")
    case True
    then have r: "snd (test_loop s0) = ?s"
      by (subst test_loop.simps) (auto simp add: Let_def)
    with "1.prems" operator_stop[of s0] show ?thesis by simp
  next
    case False
    obtain ex s1 where b: "(if current_row ?s mod 200 = 0 then batch ?s else (None, ?s)) = (ex, s1)"
      by (cases "if current_row ?s mod 200 = 0 then batch ?s else (None, ?s)") auto
    have "frame ?s (snd (batch ?s))" by simp
    moreover have "s1 = snd (batch ?s) \<or> s1 = ?s" using b by (auto split: if_splits)
    ultimately have fr: "frame ?s s1" by auto
    then have tr: "test_running s1" "stop_pressed s1 = stop_pressed s0"
      using False by (simp_all add: frame_def stop_pressed_operator)
    show ?thesis
    proof (cases ex)
      case None
      have a: "test_running (advance s1)" "stop_pressed (advance s1) = stop_pressed s0"
        using tr by (simp_all add: advance_def Let_def sleep_def log_message_def)
      have eq: "test_loop s0 = test_loop (advance s1)"
        using False b None by (subst test_loop.simps) (simp add: Let_def)
      have "stop_pressed (advance s1) \<noteq> None \<and> stop_event (snd (test_loop (advance s1)))"
        using "1.IH"[OF refl _ _ b[symmetric] refl None a(1)] False "1.prems"(2) eq by simp
      then show ?thesis using a(2) eq by simp
    next
      case (Some e)
      then have "snd (test_loop s0) = s1"
        using False b by (subst test_loop.simps) (simp add: Let_def)
      with tr "1.prems" show ?thesis by simp
    qed
  qed
qed

lemma measure_attempts_failed_logged:
  "fst (measure_attempts cmd what s) = None \<Longrightarrow>
   last (console (snd (measure_attempts cmd what s))) = what @ '' measurement failed''"
  by (auto simp add: measure_attempts_def Let_def case_prod_beta
      split: reply.splits option.splits)

lemma batch_exits:
  "fst (batch s) = Some e \<Longrightarrow> e = Break_load_on \<or> e = Break_cutoff"
  using interpolate_total[of s "drop (current_row s)
      (take (min (current_row s + 200) (length (test_data s))) (test_data s))"]
  by (auto simp add: batch_def Let_def case_prod_beta split: if_splits)

text \<open>
  Claim C4, as amended. The loop is left in one of four ways, and the final state shows
  why: its condition is false (the rows are exhausted, or \<^verbatim>\<open>test_running\<close> was cleared, which
  only a stop request does); the stop event is set; the cutoff triggered; or the write of
  \<^verbatim>\<open>:SOUR:INP ON\<close> failed in the first batch, which is logged. It is never left by an
  exception. A batch is left early only by the last two. A setpoint that fails, zero or
  not, is logged and does not leave the batch; a measurement read that fails in both
  attempts is logged.
\<close>

theorem loop_exits_only_by_design:
  "exit_justified (fst (test_loop s)) (snd (test_loop s))
   \<and> fst (test_loop s) \<noteq> Raised
   \<and> (test_running s \<and> \<not> test_running (snd (test_loop s)) \<longrightarrow>
        stop_pressed s \<noteq> None \<and> stop_event (snd (test_loop s)))
   \<and> (fst (batch s) = Some e \<longrightarrow> e = Break_load_on \<or> e = Break_cutoff)
   \<and> (1 / 1000 < v \<and> \<not> fst (safe_set_current v s) \<longrightarrow>
        \<not> fst (update_load v s)
        \<and> last (console (snd (update_load v s)))
            = ''Failed to set current level - continuing test'')
   \<and> (\<not> 1 / 1000 < v \<and> \<not> fst (safe_set_current 0 s) \<longrightarrow>
        \<not> fst (update_load v s)
        \<and> last (console (snd (update_load v s)))
            = ''Failed to set zero current - continuing test'')
   \<and> (fst (update_load v s) \<longrightarrow>
        current_row (snd (update_load v s)) = 0
        \<and> last (console (snd (update_load v s))) = ''Failed to turn on load'')
   \<and> (fst (measure_attempts cmd what s) = None \<longrightarrow>
        last (console (snd (measure_attempts cmd what s))) = what @ '' measurement failed'')"
proof -
  have 1: "exit_justified (fst (test_loop s)) (snd (test_loop s))" by (rule test_loop_exit)
  then have 2: "fst (test_loop s) \<noteq> Raised" by (auto simp add: exit_justified_def)
  show ?thesis
    using 1 2 test_loop_stopped[of s] batch_exits[of s e] update_load_failed_setpoint[of v s]
      update_load_break[of v s] measure_attempts_failed_logged[of cmd what s]
    by blast
qed

text \<open>
  Claim C4 as stated fails: when the first setpoint succeeds and every attempt to write
  \<^verbatim>\<open>:SOUR:INP ON\<close> raises, the loop is left at row 0 of a profile of one row, with no
  stop request and no countdown, and the last log line says why.
\<close>

theorem enable_failure_ends_loop_counterexample:
  "fst (test_loop (one_row refusing_link)) = Break_load_on
   \<and> current_row (snd (test_loop (one_row refusing_link)))
       < length (test_data (snd (test_loop (one_row refusing_link))))
   \<and> stop_pressed (one_row refusing_link) = None
   \<and> \<not> stop_event (snd (test_loop (one_row refusing_link)))
   \<and> test_running (snd (test_loop (one_row refusing_link)))
   \<and> voltage_below_cutoff_time (snd (test_loop (one_row refusing_link))) = None
   \<and> last (console (snd (test_loop (one_row refusing_link)))) = ''Failed to turn on load''"
  by (simp add: test_loop.simps one_row_def refusing_link_def eval_defs)

text \<open>
  The amended theorem on a link that raises at every call: the setpoint fails, the run
  goes on to the end of the profile; and with a stop request, the run ends with the stop
  event set.
\<close>

theorem loop_exits_only_by_design_witness:
  "fst (test_loop (one_row dead_link)) = While_false
   \<and> current_row (snd (test_loop (one_row dead_link))) = 1
   \<and> test_running (snd (test_loop (one_row dead_link)))
   \<and> 1 / 1000 < (10::real) \<and> \<not> fst (safe_set_current 10 (one_row dead_link))
   \<and> \<not> fst (update_load 10 (one_row dead_link))
   \<and> last (console (snd (update_load 10 (one_row dead_link))))
       = ''Failed to set current level - continuing test''
   \<and> test_running ((one_row dead_link)\<lparr>stop_pressed := Some 50\<rparr>)
   \<and> \<not> test_running (snd (test_loop ((one_row dead_link)\<lparr>stop_pressed := Some 50\<rparr>)))
   \<and> stop_event (snd (test_loop ((one_row dead_link)\<lparr>stop_pressed := Some 50\<rparr>)))"
proof -
  let ?s = "one_row dead_link"
  let ?p = "(one_row dead_link)\<lparr>stop_pressed := Some 50\<rparr>"
  have 1: "fst (test_loop ?s) = While_false" "current_row (snd (test_loop ?s)) = 1"
      "test_running (snd (test_loop ?s))"
    by (simp_all add: test_loop.simps one_row_def dead_link_def eval_defs)
  have 2: "1 / 1000 < (10::real)" by simp
  have 3: "\<not> fst (safe_set_current 10 ?s)"
    by (simp add: one_row_def dead_link_def eval_defs)
  have 4: "test_running ?p" by (simp add: one_row_def)
  have 5: "\<not> test_running (snd (test_loop ?p))"
    by (simp add: test_loop.simps one_row_def dead_link_def eval_defs)
  note T = loop_exits_only_by_design[of ?s Raised 10 "Cmd []" "[]"]
  note U = loop_exits_only_by_design[of ?p Raised 10 "Cmd []" "[]"]
  have 6: "\<not> fst (update_load 10 ?s)
      \<and> last (console (snd (update_load 10 ?s))) = ''Failed to set current level - continuing test''"
    using T[THEN conjunct2, THEN conjunct2, THEN conjunct2, THEN conjunct2, THEN conjunct1] 2 3
    by blast
  have 7: "stop_event (snd (test_loop ?p))"
    using U[THEN conjunct2, THEN conjunct2, THEN conjunct1] 4 5 by blast
  show ?thesis using 1 2 3 4 5 6 7 by blast
qed

section \<open>Enabling the load\<close>

lemmas late_defs = late_start_def late_link_def eval_defs sum_list_replicate

lemma late_run:
  "test_loop late_start =
     (While_false,
      advance (snd (batch (advance ((advance (snd (batch late_start)))\<lparr>current_row := 199\<rparr>)))))"
proof -
  let ?S1 = "advance (snd (batch late_start))"
  let ?S2 = "advance (?S1\<lparr>current_row := 199\<rparr>)"
  let ?S3 = "advance (snd (batch ?S2))"
  have "test_loop late_start = test_loop ?S1"
    by (rule test_loop_batch) (simp_all add: late_defs)
  also have "\<dots> = test_loop (?S1\<lparr>current_row := current_row ?S1 + 198\<rparr>)"
    by (rule test_loop_skip) (simp_all add: late_defs)
  also have "\<dots> = test_loop (?S1\<lparr>current_row := 199\<rparr>)"
    by (simp add: late_defs)
  also have "\<dots> = test_loop ?S2"
    by (rule test_loop_idle) (simp_all add: late_defs)
  also have "\<dots> = test_loop ?S3"
    by (rule test_loop_batch) (simp_all add: late_defs)
  also have "\<dots> = (While_false, ?S3)"
    by (rule test_loop_done) (simp_all add: late_defs)
  finally show ?thesis .
qed

text \<open>
  Claim C3 on the code. The first window gives the target 0, so the first batch does not
  enable the load; the window at row 200 gives the target 10 and \<^verbatim>\<open>safe_set_current\<close>
  succeeds for it, but the row is not 0 and \<^verbatim>\<open>:SOUR:INP ON\<close> is not sent: the run ends
  with all 201 rows done and the command never issued.
\<close>

theorem late_setpoint_never_enables:
  "fst (test_loop late_start) = While_false
   \<and> current_row (snd (test_loop late_start)) = 201
   \<and> target_current (snd (test_loop late_start)) = 10
   \<and> map snd (sent (snd (test_loop late_start)))
       = [SetLevel 0, Cmd '':SOUR:CURR:LEV?'', Cmd '':MEAS:VOLT?'', Cmd '':MEAS:CURR?'',
          SetLevel 10, Cmd '':SOUR:CURR:LEV?'', Cmd '':MEAS:VOLT?'', Cmd '':MEAS:CURR?'']
   \<and> console (snd (test_loop late_start))
       = [''Window'', ''Current set successfully'', ''Current set successfully'']"
  by (simp add: late_run) (simp add: late_defs)

end
